theory Spec2Isabelle
  imports Complex_Main "HOL-Library.Log_Nat"
begin

section \<open>The internally heated convection script\<close>

text \<open>
  The development follows \<^verbatim>\<open>internally_heated_conv.py\<close> statement by statement.
  The array arithmetic of the script itself (lines 113 and 114) is float64 arithmetic:
  every operation rounds its exact result to binary64. Times and step sizes, which the
  library computes, are reals. The spectral
  library the script drives (bases, transforms, the implicit-explicit update, the CFL
  reduction over the velocity grid) is not part of the script; what the script needs of it
  is collected in the record \<open>env\<close> and passed explicitly.
\<close>

subsection \<open>Float64 arithmetic\<close>

text \<open>
  A float64 value is the real number it stands for. \<open>rne\<close> rounds a real to the nearest
  integer, ties to the even one. \<open>expo x\<close> is the binary exponent of a positive \<open>x\<close>
  (\<open>2 powi expo x \<le> x < 2 powi (expo x + 1)\<close>). \<open>ulp x\<close> is the spacing of binary64
  around \<open>x\<close>: 53 significant bits, and the spacing \<open>2 powi (- 1074)\<close> of the subnormal
  numbers below \<open>2 powi (- 1022)\<close>. \<open>fl64\<close> rounds a real to binary64, to nearest, ties to
  even. Overflow (magnitudes from \<open>2 powi 1024\<close> on) is not covered; the values computed
  from radii of the unit ball stay below 2.
\<close>

definition rne :: "real \<Rightarrow> int" where
  "rne x =
     (let f = \<lfloor>x\<rfloor>; d = x - of_int f
      in if d < 1/2 then f else if 1/2 < d then f + 1 else if even f then f else f + 1)"

definition expo :: "real \<Rightarrow> int" where
  "expo x = (if 1 \<le> x then bitlen \<lfloor>x\<rfloor> - 1 else - bitlen (\<lceil>1 / x\<rceil> - 1))"

definition ulp :: "real \<Rightarrow> real" where
  "ulp x = 2 powi (max (expo \<bar>x\<bar>) (- 1022) - 52)"

definition fl64 :: "real \<Rightarrow> real" where
  "fl64 x = (if x = 0 then 0 else ulp x * of_int (rne (x / ulp x)))"

text \<open>The float64 operations \<^verbatim>\<open>+\<close>, \<^verbatim>\<open>-\<close> and \<^verbatim>\<open>*\<close>: the exact result, rounded.\<close>

definition fadd :: "real \<Rightarrow> real \<Rightarrow> real" where
  "fadd a b = fl64 (a + b)"

definition fsub :: "real \<Rightarrow> real \<Rightarrow> real" where
  "fsub a b = fl64 (a - b)"

definition fmul :: "real \<Rightarrow> real \<Rightarrow> real" where
  "fmul a b = fl64 (a * b)"

subsection \<open>Grid data and fields\<close>

text \<open>
  A local grid array over (phi, theta, r) is a nested list; a field holds one such array
  per tensor component (a scalar has one component) and a tag saying which representation
  its buffer currently holds.
\<close>

type_synonym grid3 = "real list list list"

datatype layout = Grid | Coeff

record field =
  fname :: string
  layout :: layout
  data :: "grid3 list"

definition zeros3 :: "nat \<Rightarrow> nat \<Rightarrow> nat \<Rightarrow> grid3" where
  "zeros3 n1 n2 n3 = replicate n1 (replicate n2 (replicate n3 0))"

text \<open>
  Modelled from the spec: the constructor \<^verbatim>\<open>field.Field\<close> (dedalus.core.field is not
  among the sources). A field owns a buffer with one array per tensor component, of the
  shape its bases give, tagged with its representation; a new buffer is taken to be
  zero-filled and tagged as coefficient data.
\<close>

definition Field :: "string \<Rightarrow> nat \<Rightarrow> nat \<times> nat \<times> nat \<Rightarrow> field" where
  "Field nm ncomp shp =
     (case shp of (n1, n2, n3) \<Rightarrow>
        \<lparr>fname = nm, layout = Coeff, data = replicate ncomp (zeros3 n1 n2 n3)\<rparr>)"

text \<open>A radial profile broadcast from shape (1, 1, Nr) to the shape of \<^verbatim>\<open>T['g']\<close>.\<close>

definition broadcast3 :: "nat \<Rightarrow> nat \<Rightarrow> real list \<Rightarrow> grid3" where
  "broadcast3 n1 n2 prof = replicate n1 (replicate n2 prof)"

text \<open>
  \<^verbatim>\<open>rand.rand(n1, n2, n3)\<close>: the array is filled in C order with the next draws of the
  generator; the stream of draws of \<^verbatim>\<open>RandomState(seed)\<close> is a parameter.
\<close>

definition rand3 :: "(nat \<Rightarrow> real) \<Rightarrow> nat \<times> nat \<times> nat \<Rightarrow> grid3" where
  "rand3 stream shp =
     (case shp of (n1, n2, n3) \<Rightarrow>
        map (\<lambda>i. map (\<lambda>j. map (\<lambda>k. stream ((i * n2 + j) * n3 + k)) [0..<n3]) [0..<n2]) [0..<n1])"

text \<open>A float64 scalar times an array, and the sum of two arrays, element by element.\<close>

definition scale3 :: "real \<Rightarrow> grid3 \<Rightarrow> grid3" where
  "scale3 a A = map (map (map (\<lambda>x. fmul a x))) A"

definition add3 :: "grid3 \<Rightarrow> grid3 \<Rightarrow> grid3" where
  "add3 A B = map2 (map2 (map2 fadd)) A B"

subsection \<open>What the script takes from outside\<close>

record checkpoint =
  ck_write :: int
  ck_dt :: real
  ck_iteration :: int
  ck_sim_time :: real
  ck_layout :: layout
  ck_data :: "string \<Rightarrow> grid3 list"

text \<open>
  \<open>argv\<close> is \<^verbatim>\<open>sys.argv\<close>, \<open>rank\<close> is \<^verbatim>\<open>d.comm_cart.rank\<close>, \<open>nphi\<close>, \<open>ntheta\<close> and
  \<open>rgrid\<close> describe the local grid returned by \<^verbatim>\<open>b.local_grids\<close>, \<open>draws\<close> gives the
  stream of each seeded generator, \<open>ckpt\<close> is the content of the checkpoint file,
  \<open>advance\<close> gives the coefficients that one solver step computes for the state field
  of a given name (from the iteration, the step size and the state), \<open>to_grid\<close> is the
  coefficient-to-grid transform and \<open>cells\<close> lists, for a velocity field, the pairs
  (grid spacing, speed) of its grid points.
\<close>

record env =
  argv :: "string list"
  rank :: int
  nphi :: nat
  ntheta :: nat
  rgrid :: "real list"
  draws :: "int \<Rightarrow> nat \<Rightarrow> real"
  ckpt :: checkpoint
  advance :: "int \<Rightarrow> real \<Rightarrow> field list \<Rightarrow> string \<Rightarrow> grid3 list"
  to_grid :: "grid3 list \<Rightarrow> grid3 list"
  cells :: "field \<Rightarrow> (real \<times> real) list"

subsection \<open>Field access\<close>

text \<open>
  Modelled from the spec: \<^verbatim>\<open>require_grid_space\<close> (section 4.2, \<^verbatim>\<open>require_grid()\<close>):
  a field whose buffer holds coefficients is transformed to grid values; a field already
  in grid space is left as it is.
\<close>

definition require_grid_space :: "env \<Rightarrow> field \<Rightarrow> field" where
  "require_grid_space e f =
     (case layout f of
        Grid \<Rightarrow> f
      | Coeff \<Rightarrow> f\<lparr>layout := Grid, data := to_grid e (data f)\<rparr>)"

text \<open>\<^verbatim>\<open>f['g'] = A\<close> for a scalar field: the buffer becomes grid data \<open>A\<close>.\<close>

definition set_grid :: "grid3 \<Rightarrow> field \<Rightarrow> field" where
  "set_grid A f = f\<lparr>layout := Grid, data := [A]\<rparr>"

text \<open>\<^verbatim>\<open>f['g'] += A\<close> for a scalar field: read in grid space, add, store.\<close>

definition add_grid :: "env \<Rightarrow> grid3 \<Rightarrow> field \<Rightarrow> field" where
  "add_grid e A f =
     (let g = require_grid_space e f in g\<lparr>data := map (\<lambda>C. add3 C A) (data g)\<rparr>)"

text \<open>\<^verbatim>\<open>f['g'][i] = A\<close>: component \<open>i\<close> of the grid data is overwritten.\<close>

definition set_grid_component :: "env \<Rightarrow> nat \<Rightarrow> grid3 \<Rightarrow> field \<Rightarrow> field" where
  "set_grid_component e i A f =
     (let g = require_grid_space e f in g\<lparr>data := (data g)[i := A]\<rparr>)"

text \<open>Update of the field called \<open>nm\<close> inside a list of fields (the fields are shared objects).\<close>

definition update_field :: "string \<Rightarrow> (field \<Rightarrow> field) \<Rightarrow> field list \<Rightarrow> field list" where
  "update_field nm g fs = map (\<lambda>f. if fname f = nm then g f else f) fs"

subsection \<open>Solver\<close>

record solver =
  state :: "field list"
  sim_time :: real
  iteration :: int
  stop_sim_time :: "real option"

text \<open>
  Modelled from the spec: \<^verbatim>\<open>solvers.InitialValueSolver\<close> (not among the sources). The
  solver state is the list of problem variables, simulation time and iteration count start
  at zero, and no stop time is set.
\<close>

definition InitialValueSolver :: "field list \<Rightarrow> solver" where
  "InitialValueSolver vars = \<lparr>state = vars, sim_time = 0, iteration = 0, stop_sim_time = None\<rparr>"

text \<open>
  Modelled from the spec: \<^verbatim>\<open>solver.proceed\<close> (section 4.5), the continue signal
  \<^verbatim>\<open>sim_time < stop_sim_time\<close>; the script sets no iteration or wall-clock limit.
\<close>

definition proceed :: "solver \<Rightarrow> bool" where
  "proceed s = (case stop_sim_time s of None \<Rightarrow> True | Some t \<Rightarrow> sim_time s < t)"

text \<open>
  Modelled from the spec: \<^verbatim>\<open>solver.step(dt)\<close> (section 4.5, items 1 to 5): the buffer
  of every state field is overwritten with the solution of the implicit system, which is
  coefficient data, and the iteration counter and the simulation time advance.
\<close>

definition step :: "env \<Rightarrow> real \<Rightarrow> solver \<Rightarrow> solver" where
  "step e d s =
     s\<lparr>state := map (\<lambda>f. f\<lparr>layout := Coeff,
                                data := advance e (iteration s) d (state s) (fname f)\<rparr>) (state s),
       iteration := iteration s + 1,
       sim_time := sim_time s + d\<rparr>"

text \<open>
  Modelled from the spec: \<^verbatim>\<open>solver.load_state\<close> (section 6,
  \<^verbatim>\<open>deserialize_state(buffer, iteration, sim_time)\<close>): every state field takes the stored
  buffer of its name, time and iteration are restored, and the write number and the last
  step size are returned.
\<close>

definition load_state :: "checkpoint \<Rightarrow> solver \<Rightarrow> (int \<times> real) \<times> solver" where
  "load_state ck s =
     ((ck_write ck, ck_dt ck),
      s\<lparr>state := map (\<lambda>f. f\<lparr>layout := ck_layout ck, data := ck_data ck (fname f)\<rparr>) (state s),
        sim_time := ck_sim_time ck,
        iteration := ck_iteration ck\<rparr>)"

subsection \<open>The CFL controller\<close>

record cfl =
  stored_dt :: real
  cadence :: int
  safety :: real
  threshold :: real
  max_dt :: real

text \<open>
  Modelled from the spec: the admissible step of the Courant condition (section 4.5),
  \<^verbatim>\<open>safety * min(grid_spacing / |velocity|)\<close> over the grid points. A point with zero
  velocity bounds nothing; when no point has a velocity the step size is undefined
  (the degenerate case of section 7), which is \<open>None\<close> here.
\<close>

definition courant_bound :: "real \<Rightarrow> (real \<times> real) list \<Rightarrow> real option" where
  "courant_bound sf cs =
     (let ts = map (\<lambda>(dx, v). dx / \<bar>v\<bar>) (filter (\<lambda>(dx, v). v \<noteq> 0) cs)
      in if ts = [] then None else Some (sf * Min (set ts)))"

text \<open>
  Modelled from the spec: \<^verbatim>\<open>CFL.compute_timestep\<close> (dedalus.extras.flow_tools is not
  among the sources). Section 4.5: the controller computes the admissible step, applies
  hysteresis (a change smaller than the fraction \<open>threshold\<close> of the current step is
  ignored) and then the hard cap \<open>max_dt\<close>; section 7: a degenerate velocity falls back to
  \<open>max_dt\<close>. The step returned is remembered as the current one. The spec describes a
  controller that recomputes at every query, which is \<^verbatim>\<open>cadence=1\<close> of the script.
\<close>

definition compute_timestep :: "cfl \<Rightarrow> (real \<times> real) list \<Rightarrow> real \<times> cfl" where
  "compute_timestep c cs =
     (let dt = (case courant_bound (safety c) cs of
                  None \<Rightarrow> max_dt c
                | Some b \<Rightarrow>
                    min (if \<bar>b - stored_dt c\<bar> < threshold c * stored_dt c then stored_dt c else b)
                        (max_dt c))
      in (dt, c\<lparr>stored_dt := dt\<rparr>))"

subsection \<open>The script up to the main loop\<close>

datatype event =
    CFLQuery real
  | Step real
  | LogInfo real real
  | Symmetrize int string

text \<open>
  The module-level variables of the script that later statements read or write, and the
  sequence of calls made in the main loop (\<open>trace\<close>, oldest first).
\<close>

record script =
  restart :: bool
  t_end :: real
  r_vec :: field
  solver :: solver
  dt :: real
  mode :: string
  write_no :: "int option"
  CFL :: cfl
  trace :: "event list"

text \<open>Lines 38 to 40.\<close>

definition restart_of :: "string list \<Rightarrow> bool" where
  "restart_of av = (length av > 1 \<and> av ! 1 = ''--restart'')"

text \<open>Lines 45 to 48.\<close>

definition t_end_of :: "bool \<Rightarrow> real" where
  "t_end_of rs = (if \<not> rs then 10.01 else 20)"

definition T_source :: real where
  "T_source = 6"

definition hermitian_cadence :: int where
  "hermitian_cadence = 100"

text \<open>The local grid shape of a field on the ball basis.\<close>

definition ball_shape :: "env \<Rightarrow> nat \<times> nat \<times> nat" where
  "ball_shape e = (nphi e, ntheta e, length (rgrid e))"

text \<open>
  Lines 65 to 71: the five problem variables (vectors have the three components of the
  spherical coordinate system; the tau fields live on the sphere, one radial point) and
  the coefficient field \<open>r_vec\<close> on the radial basis, whose component 2 is set to \<open>r\<close>.
\<close>

definition variables :: "env \<Rightarrow> field list" where
  "variables e =
     [Field ''u'' 3 (ball_shape e),
      Field ''p'' 1 (ball_shape e),
      Field ''T'' 1 (ball_shape e),
      Field ''tau u'' 3 (nphi e, ntheta e, 1),
      Field ''tau T'' 1 (nphi e, ntheta e, 1)]"

definition r_vec_init :: "env \<Rightarrow> field" where
  "r_vec_init e =
     set_grid_component e 2 [[rgrid e]] (Field [] 3 (1, 1, length (rgrid e)))"

text \<open>
  Lines 110 to 119, on the solver built in lines 106 and 107. \<^verbatim>\<open>r**2\<close> is the float64
  product of \<open>r\<close> with itself.
\<close>

definition initial_condition :: "env \<Rightarrow> bool \<Rightarrow> solver \<Rightarrow> solver \<times> string \<times> real \<times> int option" where
  "initial_condition e rs sv =
     (if \<not> rs then
        (let seed = 42 + rank e;
             rnd = draws e seed;
             fs1 = update_field ''T''
                     (set_grid (broadcast3 (nphi e) (ntheta e) (map (\<lambda>x. fsub 1 (fmul x x)) (rgrid e))))
                     (state sv);
             fs2 = update_field ''T''
                     (add_grid e (scale3 0.5 (rand3 rnd (ball_shape e)))) fs1
         in (sv\<lparr>state := fs2\<rparr>, ''overwrite'', 0.05, None))
      else
        (case load_state (ckpt e) sv of
           ((w, d), sv') \<Rightarrow> (sv', ''append'', d, Some w)))"

text \<open>Lines 38 to 139.\<close>

definition startup :: "env \<Rightarrow> script" where
  "startup e =
     (let rs = restart_of (argv e);
          te = t_end_of rs;
          sv = (InitialValueSolver (variables e))\<lparr>stop_sim_time := Some te\<rparr>
      in case initial_condition e rs sv of
           (sv', md, d, w) \<Rightarrow>
             \<lparr>restart = rs, t_end = te, r_vec = r_vec_init e, solver = sv', dt = d,
              mode = md, write_no = w,
              CFL = \<lparr>stored_dt = d, cadence = 1, safety = 0.35, threshold = 0.1, max_dt = 0.05\<rparr>,
              trace = []\<rparr>)"

subsection \<open>The main loop\<close>

text \<open>The velocity registered with \<^verbatim>\<open>CFL.add_velocity(u)\<close>, as the controller sees it.\<close>

definition velocity_cells :: "env \<Rightarrow> field list \<Rightarrow> (real \<times> real) list" where
  "velocity_cells e fs = concat (map (cells e) (filter (\<lambda>f. fname f = ''u'') fs))"

text \<open>Lines 144 to 151: one pass of the loop body.\<close>

definition loop_body :: "env \<Rightarrow> script \<Rightarrow> script" where
  "loop_body e s =
     (case compute_timestep (CFL s) (velocity_cells e (state (solver s))) of
        (d, c) \<Rightarrow>
          (let sv = step e d (solver s);
               tr1 = trace s @ [CFLQuery d, Step d];
               tr2 = (if (iteration sv - 1) mod 10 = 0
                      then tr1 @ [LogInfo (sim_time sv) d] else tr1)
           in if iteration sv mod hermitian_cadence \<in> {0, 1}
              then s\<lparr>dt := d, CFL := c,
                     solver := sv\<lparr>state := map (require_grid_space e) (state sv)\<rparr>,
                     trace := tr2 @ map (\<lambda>f. Symmetrize (iteration sv) (fname f)) (state sv)\<rparr>
              else s\<lparr>dt := d, CFL := c, solver := sv, trace := tr2\<rparr>))"

text \<open>Line 143: the loop runs while the solver says to proceed; it need not end.\<close>

partial_function (option) main_loop :: "env \<Rightarrow> script \<Rightarrow> script option" where
  "main_loop e s = (if proceed (solver s) then main_loop e (loop_body e s) else Some s)"

text \<open>The state after \<open>n\<close> passes of the loop body.\<close>

fun passes :: "nat \<Rightarrow> env \<Rightarrow> script \<Rightarrow> script" where
  "passes 0 e s = s"
| "passes (Suc n) e s = passes n e (loop_body e s)"

text \<open>The step size that the controller returns when queried in state \<open>s\<close>.\<close>

definition next_dt :: "env \<Rightarrow> script \<Rightarrow> real" where
  "next_dt e s = fst (compute_timestep (CFL s) (velocity_cells e (state (solver s))))"

text \<open>The calls that query the controller or advance the solver.\<close>

fun control :: "event \<Rightarrow> bool" where
  "control (CFLQuery d) = True"
| "control (Step d) = True"
| "control (LogInfo t d) = False"
| "control (Symmetrize i nm) = False"

subsection \<open>The buoyancy term\<close>

text \<open>
  The grid values of \<^verbatim>\<open>r_vec*T\<close> in line 96, as the pointwise product with
  broadcasting: every component of \<open>r_vec\<close> is a radial profile (shape (1, 1, Nr)),
  multiplied into every radial line of the scalar.
\<close>

definition times_radial :: "grid3 list \<Rightarrow> grid3 \<Rightarrow> grid3 list" where
  "times_radial V A = map (\<lambda>C. map (map (\<lambda>row. map2 (*) (concat (concat C)) row)) A) V"

section \<open>Problem assembly\<close>

text \<open>
  An equation as \<^verbatim>\<open>problem.add_equation\<close> receives it: the equation string and the
  optional \<^verbatim>\<open>condition\<close> on the spectral index \<^verbatim>\<open>ntheta\<close>.
\<close>

datatype cond = NthetaEq int | NthetaNe int

record equation =
  eq_str :: string
  condition :: "cond option"

fun holds :: "cond \<Rightarrow> int \<Rightarrow> bool" where
  "holds (NthetaEq k) n = (n = k)"
| "holds (NthetaNe k) n = (n \<noteq> k)"

text \<open>Lines 96 to 102.\<close>

definition equations :: "equation list" where
  "equations =
     [\<lparr>eq_str = ''ddt(u) - 1/R*lap(u) + grad(p) + LiftTau(tau_u) - r_vec*T = - cross(curl(u),u)'',
       condition = None\<rparr>,
      \<lparr>eq_str = ''div(u) = 0'', condition = None\<rparr>,
      \<lparr>eq_str = ''ddt(T) - 1/P*lap(T) + LiftTau(tau_T) = - dot(u,grad(T)) + T_source/P'',
       condition = None\<rparr>,
      \<lparr>eq_str = ''rad(u(r=1)) = 0'', condition = Some (NthetaNe 0)\<rparr>,
      \<lparr>eq_str = ''p(r=1) = 0'', condition = Some (NthetaEq 0)\<rparr>,
      \<lparr>eq_str = ''shear_stress = 0'', condition = None\<rparr>,
      \<lparr>eq_str = ''T(r=1) = 0'', condition = None\<rparr>]"

text \<open>Line 43: the spectral indices \<^verbatim>\<open>ntheta\<close> of the ball basis.\<close>

definition Ntheta :: nat where
  "Ntheta = 64"

definition ntheta_indices :: "int list" where
  "ntheta_indices = map int [0..<Ntheta]"

text \<open>The conditioned equations that claim the spectral index \<open>n\<close>.\<close>

definition claimants :: "equation list \<Rightarrow> int \<Rightarrow> equation list" where
  "claimants eqs n =
     filter (\<lambda>q. case condition q of None \<Rightarrow> False | Some c \<Rightarrow> holds c n) eqs"

datatype error = AssemblyError

text \<open>
  Modelled from the spec: the mode-coverage check of problem assembly (sections 4.3, 7
  and 8; dedalus.core.problems and the assembly code are not among the sources). Every
  spectral index is routed to the one conditioned equation that claims it; an index
  claimed by none or by several is an assembly error.
\<close>

fun check_mode_coverage :: "equation list \<Rightarrow> int list \<Rightarrow> error + (int \<times> equation) list" where
  "check_mode_coverage eqs [] = Inr []"
| "check_mode_coverage eqs (n # ns) =
     (case claimants eqs n of
        [q] \<Rightarrow> (case check_mode_coverage eqs ns of
                  Inl err \<Rightarrow> Inl err
                | Inr routes \<Rightarrow> Inr ((n, q) # routes))
      | _ \<Rightarrow> Inl AssemblyError)"

text \<open>
  Two malformed variants of the conditioned equations: one leaves \<^verbatim>\<open>ntheta == 0\<close>
  unclaimed, the other claims every index but 0 and 1 twice.
\<close>

definition gap_equations :: "equation list" where
  "gap_equations = [\<lparr>eq_str = ''rad(u(r=1)) = 0'', condition = Some (NthetaNe 0)\<rparr>]"

definition overlap_equations :: "equation list" where
  "overlap_equations =
     [\<lparr>eq_str = ''rad(u(r=1)) = 0'', condition = Some (NthetaNe 0)\<rparr>,
      \<lparr>eq_str = ''p(r=1) = 0'', condition = Some (NthetaNe 1)\<rparr>]"

section \<open>Example runs\<close>

text \<open>A first run on a grid of one point, with a solver that leaves the state as it is.\<close>

definition quiet_env :: env where
  "quiet_env =
     \<lparr>argv = [''internally_heated_conv.py''], rank = 0, nphi = 1, ntheta = 1, rgrid = [1/2],
      draws = (\<lambda>seed n. 1/4),
      ckpt = \<lparr>ck_write = 0, ck_dt = 0, ck_iteration = 0, ck_sim_time = 0, ck_layout = Grid,
              ck_data = (\<lambda>nm. [])\<rparr>,
      advance = (\<lambda>it d fs nm. concat (map data (filter (\<lambda>f. fname f = nm) fs))),
      to_grid = (\<lambda>x. x),
      cells = (\<lambda>f. [(1, 1)])\<rparr>"

text \<open>A restarted run.\<close>

definition restart_env :: env where
  "restart_env =
     quiet_env\<lparr>argv := [''internally_heated_conv.py'', ''--restart''],
               ckpt := \<lparr>ck_write = 11, ck_dt = 0.01, ck_iteration = 300, ck_sim_time = 10.01,
                        ck_layout = Grid, ck_data = (\<lambda>nm. [])\<rparr>\<rparr>"

text \<open>
  A run in which the speed doubles with every step: the velocity has a single grid value,
  \<open>14 * 2 ^ it\<close> after the step taken at iteration \<open>it\<close>, and unit grid spacing.
\<close>

definition blowup_env :: env where
  "blowup_env =
     \<lparr>argv = [''internally_heated_conv.py''], rank = 0, nphi = 0, ntheta = 0, rgrid = [],
      draws = (\<lambda>seed n. 0),
      ckpt = \<lparr>ck_write = 0, ck_dt = 0, ck_iteration = 0, ck_sim_time = 0, ck_layout = Grid,
              ck_data = (\<lambda>nm. [])\<rparr>,
      advance = (\<lambda>it d fs nm. if nm = ''u'' then [[[[14 * 2 ^ nat it]]]] else []),
      to_grid = (\<lambda>x. x),
      cells = (\<lambda>f. map (\<lambda>x. (1, x)) (concat (concat (concat (data f)))))\<rparr>"

text \<open>
  A first run on a one-point grid at radius 1/2 whose generator returns the largest
  float64 below 1.
\<close>

definition edge_env :: env where
  "edge_env = quiet_env\<lparr>draws := (\<lambda>seed n. 1 - 1 / 2 ^ 53)\<rparr>"

text \<open>
  A restart close to the stop time: the checkpoint holds time 19.99 and unit speed, and
  after the restart the speed doubles with every step.
\<close>

definition late_env :: env where
  "late_env =
     blowup_env\<lparr>argv := [''internally_heated_conv.py'', ''--restart''],
                ckpt := \<lparr>ck_write = 11, ck_dt = 0.05, ck_iteration = 300, ck_sim_time = 19.99,
                         ck_layout = Grid,
                         ck_data = (\<lambda>nm. if nm = ''u'' then [[[[1]]]] else [])\<rparr>\<rparr>"

text \<open>
  What holds after every pass of that run: after pass \<open>k + 1\<close> the speed is \<open>14 * 2 ^ k\<close>,
  the step size is \<open>0.05 / 2 ^ k\<close>, and the simulation time is 0.1 minus the step size.
\<close>

definition blowup_inv :: "script \<Rightarrow> bool" where
  "blowup_inv s \<longleftrightarrow>
     (let k = nat (iteration (solver s) - 1) in
        1 \<le> iteration (solver s) \<and>
        velocity_cells blowup_env (state (solver s)) = [(1, 14 * 2 ^ k)] \<and>
        map fname (state (solver s)) = [''u'', ''p'', ''T'', ''tau u'', ''tau T''] \<and>
        stored_dt (CFL s) = 0.05 / 2 ^ k \<and>
        sim_time (solver s) = 0.1 - stored_dt (CFL s) \<and>
        stop_sim_time (solver s) = Some 10.01 \<and>
        safety (CFL s) = 0.35 \<and> threshold (CFL s) = 0.1 \<and> max_dt (CFL s) = 0.05)"

section \<open>Properties of the script\<close>

subsection \<open>Rounding\<close>

lemma rne_bounds: "\<lfloor>x\<rfloor> \<le> rne x" "rne x \<le> \<lfloor>x\<rfloor> + 1"
  by (simp_all add: rne_def Let_def)

lemma rne_of_int [simp]: "rne (of_int k) = k"
  by (simp add: rne_def)

lemma rne_numeral [simp]: "rne (numeral n) = numeral n"
  using rne_of_int[of "numeral n"] by simp

lemma rne_zero [simp]: "rne 0 = 0"
  using rne_of_int[of 0] by simp

lemma rne_mono:
  assumes "x \<le> y"
  shows "rne x \<le> rne y"
proof (cases "\<lfloor>x\<rfloor> < \<lfloor>y\<rfloor>")
  case True
  then show ?thesis using rne_bounds(2)[of x] rne_bounds(1)[of y] by linarith
next
  case False
  with assms have eq: "\<lfloor>x\<rfloor> = \<lfloor>y\<rfloor>" using floor_mono[of x y] by linarith
  with assms show ?thesis by (auto simp: rne_def Let_def)
qed

lemma expo_bounds:
  assumes "0 < x"
  shows "2 powi (expo x) \<le> x" "x < 2 powi (expo x + 1)"
proof -
  have "2 powi (expo x) \<le> x \<and> x < 2 powi (expo x + 1)"
  proof (cases "1 \<le> x")
    case True
    then have p: "0 < \<lfloor>x\<rfloor>" by linarith
    let ?b = "bitlen \<lfloor>x\<rfloor>"
    from bitlen_bounds[OF p] have b: "2 ^ nat (?b - 1) \<le> \<lfloor>x\<rfloor>" "\<lfloor>x\<rfloor> < 2 ^ nat ?b" by simp_all
    from p have b1: "1 \<le> ?b" by (simp add: bitlen_alt_def)
    have "(2::real) ^ nat (?b - 1) \<le> of_int \<lfloor>x\<rfloor>" using b(1)
      by (metis of_int_le_iff of_int_numeral of_int_power)
    then have lo: "(2::real) ^ nat (?b - 1) \<le> x" by linarith
    have "\<lfloor>x\<rfloor> + 1 \<le> 2 ^ nat ?b" using b(2) by simp
    then have "of_int (\<lfloor>x\<rfloor> + 1) \<le> (2::real) ^ nat ?b"
      by (metis of_int_le_iff of_int_numeral of_int_power)
    then have hi: "x < (2::real) ^ nat ?b" by linarith
    from b1 have "(2::real) powi (?b - 1) = 2 ^ nat (?b - 1)" "(2::real) powi ?b = 2 ^ nat ?b"
      by (simp_all add: power_int_def)
    with lo hi True show ?thesis by (simp add: expo_def)
  next
    case False
    with assms have y1: "1 < 1 / x" by simp
    let ?n = "\<lceil>1 / x\<rceil> - 1"
    from y1 have p: "0 < ?n" by linarith
    let ?b = "bitlen ?n"
    from bitlen_bounds[OF p] have b: "2 ^ nat (?b - 1) \<le> ?n" "?n < 2 ^ nat ?b" by simp_all
    from p have b1: "1 \<le> ?b" by (simp add: bitlen_alt_def)
    have "(2::real) ^ nat (?b - 1) \<le> of_int ?n" using b(1)
      by (metis of_int_le_iff of_int_numeral of_int_power)
    moreover have "of_int ?n < 1 / x" by linarith
    ultimately have lo: "(2::real) ^ nat (?b - 1) < 1 / x" by linarith
    have "?n + 1 \<le> 2 ^ nat ?b" using b(2) by simp
    then have "of_int (?n + 1) \<le> (2::real) ^ nat ?b"
      by (metis of_int_le_iff of_int_numeral of_int_power)
    moreover have "1 / x \<le> of_int (?n + 1)" by simp
    ultimately have hi: "1 / x \<le> (2::real) ^ nat ?b" by linarith
    have e1: "(2::real) powi (- ?b) = 1 / 2 ^ nat ?b"
      using b1 by (simp add: power_int_def field_simps)
    have e2: "(2::real) powi (- ?b + 1) = 1 / 2 ^ nat (?b - 1)"
      using b1 by (simp add: power_int_def field_simps nat_diff_distrib)
    from hi assms have "1 / 2 ^ nat ?b \<le> x"
      by (simp add: field_simps)
    moreover from lo assms have "x < 1 / 2 ^ nat (?b - 1)"
      by (simp add: field_simps)
    ultimately show ?thesis using False e1 e2 by (simp add: expo_def)
  qed
  then show "2 powi (expo x) \<le> x" "x < 2 powi (expo x + 1)" by simp_all
qed

lemma two_powi_less_imp:
  assumes "(2::real) powi m < 2 powi n"
  shows "m < n"
proof (rule ccontr)
  assume "\<not> m < n"
  then have "n \<le> m" by simp
  then have "(2::real) powi n \<le> 2 powi m" by (intro power_int_increasing) simp_all
  with assms show False by simp
qed

lemma two_powi_mono: "m \<le> n \<Longrightarrow> (2::real) powi m \<le> 2 powi n"
  by (intro power_int_increasing) simp_all

lemma expo_unique:
  assumes "2 powi e \<le> x" "x < 2 powi (e + 1)"
  shows "expo x = e"
proof -
  have x: "0 < x" using assms(1) by (smt (verit) zero_less_power_int)
  note b = expo_bounds[OF x]
  have "(2::real) powi e < 2 powi (expo x + 1)" using assms(1) b(2) by linarith
  then have "e < expo x + 1" by (rule two_powi_less_imp)
  moreover have "(2::real) powi (expo x) < 2 powi (e + 1)" using assms(2) b(1) by linarith
  then have "expo x < e + 1" by (rule two_powi_less_imp)
  ultimately show ?thesis by simp
qed


lemma ulp_pos [simp]: "0 < ulp x"
  by (simp add: ulp_def)

lemma quant_lower:
  assumes "0 < u" "u * of_int k \<le> x"
  shows "u * of_int k \<le> u * of_int (rne (x / u))"
proof -
  from assms have "of_int k \<le> x / u" by (simp add: field_simps)
  from rne_mono[OF this] have "k \<le> rne (x / u)" by simp
  then have "(of_int k :: real) \<le> of_int (rne (x / u))" by simp
  with assms(1) show ?thesis by simp
qed

lemma quant_upper:
  assumes "0 < u" "x \<le> u * of_int k"
  shows "u * of_int (rne (x / u)) \<le> u * of_int k"
proof -
  from assms have "x / u \<le> of_int k" by (simp add: field_simps)
  from rne_mono[OF this] have "rne (x / u) \<le> k" by simp
  then have "(of_int (rne (x / u)) :: real) \<le> of_int k" by simp
  with assms(1) show ?thesis by simp
qed

lemma powi_split: "(2::real) powi (e + 1) = 2 powi (e - 52) * of_int (2 ^ 53)"
proof -
  have "e + 1 = (e - 52) + 53" by simp
  then have "(2::real) powi (e + 1) = 2 powi ((e - 52) + 53)" by (rule arg_cong)
  also have "\<dots> = 2 powi (e - 52) * 2 powi 53" by (rule power_int_add) simp
  finally show ?thesis by simp
qed

lemma powi_split0: "(2::real) powi e = 2 powi (e - 52) * of_int (2 ^ 52)"
proof -
  have "e = (e - 52) + 52" by simp
  then have "(2::real) powi e = 2 powi ((e - 52) + 52)" by (rule arg_cong)
  also have "\<dots> = 2 powi (e - 52) * 2 powi 52" by (rule power_int_add) simp
  finally show ?thesis by simp
qed

lemma fl64_zero [simp]: "fl64 0 = 0"
  by (simp add: fl64_def)

lemma fl64_upper:
  assumes "0 < x" "x \<le> 2 powi (e + 1)" "max (expo x) (- 1022) = e"
  shows "fl64 x \<le> 2 powi (e + 1)"
proof -
  have u: "ulp x = 2 powi (e - 52)" using assms(1,3) by (simp add: ulp_def)
  have s: "(2::real) powi (e + 1) = ulp x * of_int (2 ^ 53)"
    unfolding u by (rule powi_split)
  have "x \<le> ulp x * of_int (2 ^ 53)" using assms(2) unfolding s .
  then have "ulp x * of_int (rne (x / ulp x)) \<le> ulp x * of_int (2 ^ 53)"
    by (intro quant_upper) simp_all
  then show ?thesis using assms(1) unfolding s by (simp add: fl64_def)
qed

lemma fl64_lower:
  assumes "0 < x" "2 powi e \<le> x" "max (expo x) (- 1022) = e"
  shows "2 powi e \<le> fl64 x"
proof -
  have u: "ulp x = 2 powi (e - 52)" using assms(1,3) by (simp add: ulp_def)
  have s: "(2::real) powi e = ulp x * of_int (2 ^ 52)"
    unfolding u by (rule powi_split0)
  have "ulp x * of_int (2 ^ 52) \<le> x" using assms(2) unfolding s .
  then have "ulp x * of_int (2 ^ 52) \<le> ulp x * of_int (rne (x / ulp x))"
    by (intro quant_lower) simp_all
  then show ?thesis using assms(1) unfolding s by (simp add: fl64_def)
qed

lemma fl64_nonneg:
  assumes "0 \<le> x"
  shows "0 \<le> fl64 x"
proof (cases "x = 0")
  case True
  then show ?thesis by simp
next
  case False
  with assms have x: "0 < x" by simp
  have "ulp x * of_int 0 \<le> ulp x * of_int (rne (x / ulp x))"
    using x by (intro quant_lower) simp_all
  with False show ?thesis by (simp add: fl64_def)
qed

lemma expo_mono:
  assumes "0 < x" "x \<le> y"
  shows "expo x \<le> expo y"
proof -
  from assms have y: "0 < y" by simp
  have "(2::real) powi (expo x) < 2 powi (expo y + 1)"
    using expo_bounds(1)[OF assms(1)] expo_bounds(2)[OF y] assms(2) by linarith
  from two_powi_less_imp[OF this] show ?thesis by simp
qed

lemma fl64_mono_nonneg:
  assumes "0 \<le> x" "x \<le> y"
  shows "fl64 x \<le> fl64 y"
proof (cases "x = 0")
  case True
  then show ?thesis using fl64_nonneg[of y] assms by simp
next
  case False
  with assms have x: "0 < x" and y: "0 < y" by simp_all
  define ex where "ex = max (expo x) (- 1022)"
  define ey where "ey = max (expo y) (- 1022)"
  have le: "ex \<le> ey" using expo_mono[OF x assms(2)] by (simp add: ex_def ey_def)
  show ?thesis
  proof (cases "ex = ey")
    case True
    have u: "ulp x = ulp y" using x y True by (simp add: ulp_def ex_def ey_def)
    have "0 \<le> ulp y" using ulp_pos[of y] by linarith
    with assms(2) have "x / ulp y \<le> y / ulp y" by (rule divide_right_mono)
    from rne_mono[OF this] have "(of_int (rne (x / ulp y)) :: real) \<le> of_int (rne (y / ulp y))"
      by simp
    then have "ulp y * of_int (rne (x / ulp y)) \<le> ulp y * of_int (rne (y / ulp y))"
      by simp
    with x y show ?thesis by (simp add: fl64_def u)
  next
    case False
    with le have lt: "ex < ey" by simp
    have "- 1022 \<le> ex" by (simp add: ex_def)
    with lt have "- 1022 < ey" by simp
    then have ey': "ey = expo y" unfolding ey_def max_def by (simp split: if_splits)
    have "x < 2 powi (expo x + 1)" by (rule expo_bounds(2)[OF x])
    also have "\<dots> \<le> 2 powi (ex + 1)" by (intro two_powi_mono) (simp add: ex_def)
    finally have "x \<le> 2 powi (ex + 1)" by simp
    from fl64_upper[OF x this] have a: "fl64 x \<le> 2 powi (ex + 1)" by (simp add: ex_def)
    have "2 powi ey \<le> y" unfolding ey' by (rule expo_bounds(1)[OF y])
    from fl64_lower[OF y this] have b: "2 powi ey \<le> fl64 y" by (simp add: ey_def)
    have "(2::real) powi (ex + 1) \<le> 2 powi ey" using lt by (intro two_powi_mono) simp
    with a b show ?thesis by linarith
  qed
qed


lemma fl64_multiple:
  assumes "0 < y" "y = ulp y * of_int k"
  shows "fl64 y = y"
proof -
  have "ulp y \<noteq> 0" using ulp_pos[of y] by linarith
  then have "y / ulp y = of_int k"
    by (subst assms(2)) simp
  then have "rne (y / ulp y) = k" by simp
  with assms show ?thesis by (simp add: fl64_def)
qed

lemma fl64_representable:
  assumes "- 1022 \<le> e" "2 ^ 52 \<le> k" "k < 2 ^ 53"
  shows "fl64 (2 powi (e - 52) * of_int k) = 2 powi (e - 52) * of_int k"
proof -
  define u :: real where "u = 2 powi (e - 52)"
  define y where "y = u * of_int k"
  have u: "0 < u" by (simp add: u_def)
  have k: "(of_int (2 ^ 52) :: real) \<le> of_int k" "(of_int k :: real) < of_int (2 ^ 53)"
    using assms(2,3) by (simp_all only: of_int_le_iff of_int_less_iff)
  have lo: "2 powi e \<le> y"
    unfolding y_def powi_split0[of e] u_def[symmetric] using u k(1) by simp
  have hi: "y < 2 powi (e + 1)"
    unfolding y_def powi_split[of e] u_def[symmetric] using u k(2) by simp
  have y: "0 < y" using lo by (smt (verit) zero_less_power_int)
  have "expo y = e" using lo hi by (rule expo_unique)
  then have "ulp y = u" using y assms(1) by (simp add: ulp_def u_def)
  then have "y = ulp y * of_int k" by (simp add: y_def)
  from fl64_multiple[OF y this] show ?thesis by (simp add: y_def u_def)
qed

lemma fl64_pow2:
  assumes "- 1022 \<le> e"
  shows "fl64 (2 powi e) = 2 powi e"
  using fl64_representable[OF assms, of "2 ^ 52"] powi_split0[of e] by simp

lemma fl64_subnormal:
  assumes "0 < k" "k < 2 ^ 52"
  shows "fl64 (2 powi (- 1074) * of_int k) = 2 powi (- 1074) * of_int k"
proof -
  define u :: real where "u = 2 powi (- 1074)"
  define y where "y = u * of_int k"
  have u: "0 < u" by (simp add: u_def)
  have k: "(0::real) < of_int k" "(of_int k :: real) < of_int (2 ^ 52)"
    using assms by (simp_all only: of_int_0_less_iff of_int_less_iff)
  have y: "0 < y" using u k(1) by (simp add: y_def)
  have "y < 2 powi (- 1022)"
    unfolding y_def powi_split0[of "- 1022"] using u k(2) by (simp add: u_def)
  with expo_bounds(1)[OF y] have "(2::real) powi (expo y) < 2 powi (- 1022)" by linarith
  then have "expo y < - 1022" by (rule two_powi_less_imp)
  then have "ulp y = u" using y by (simp add: ulp_def u_def)
  then have "y = ulp y * of_int k" by (simp add: y_def)
  from fl64_multiple[OF y this] show ?thesis by (simp add: y_def u_def)
qed

lemma fl64_idem_nonneg:
  assumes "0 \<le> x"
  shows "fl64 (fl64 x) = fl64 x"
proof (cases "x = 0")
  case True
  then show ?thesis by simp
next
  case False
  with assms have x: "0 < x" by simp
  define E where "E = max (expo x) (- 1022)"
  define u :: real where "u = 2 powi (E - 52)"
  define k where "k = rne (x / u)"
  have u: "0 < u" by (simp add: u_def)
  have ux: "ulp x = u" using x by (simp add: ulp_def u_def E_def)
  have y: "fl64 x = u * of_int k" using x by (simp add: fl64_def ux k_def)
  have E: "- 1022 \<le> E" by (simp add: E_def)
  have "x < 2 powi (expo x + 1)" by (rule expo_bounds(2)[OF x])
  also have "\<dots> \<le> 2 powi (E + 1)" by (intro two_powi_mono) (simp add: E_def)
  finally have "x \<le> u * of_int (2 ^ 53)" unfolding powi_split[of E] u_def by simp
  then have "x / u \<le> of_int (2 ^ 53)" using u by (simp add: field_simps)
  from rne_mono[OF this] have k53: "k \<le> 2 ^ 53" by (simp add: k_def)
  have "0 \<le> x / u" using x u by simp
  from rne_mono[OF this] have k0: "0 \<le> k" by (simp add: k_def)
  show ?thesis
  proof (cases "k = 0")
    case True
    then show ?thesis by (simp add: y)
  next
    case kn: False
    show ?thesis
    proof (cases "- 1022 \<le> expo x")
      case True
      then have EE: "E = expo x" by (simp add: E_def)
      have "u * of_int (2 ^ 52) \<le> x"
        using expo_bounds(1)[OF x] unfolding EE[symmetric] powi_split0[of E] u_def .
      then have "of_int (2 ^ 52) \<le> x / u" using u by (simp add: field_simps)
      from rne_mono[OF this] have k52: "2 ^ 52 \<le> k" by (simp add: k_def)
      show ?thesis
      proof (cases "k < 2 ^ 53")
        case True
        from fl64_representable[OF E k52 True] show ?thesis by (simp add: y u_def)
      next
        case False
        with k53 have "k = 2 ^ 53" by simp
        then have "fl64 x = 2 powi (E + 1)" unfolding y powi_split[of E] u_def by simp
        moreover have "fl64 (2 powi (E + 1)) = 2 powi (E + 1)"
          using E by (intro fl64_pow2) simp
        ultimately show ?thesis by (simp only:)
      qed
    next
      case False
      then have EE: "E = - 1022" by (simp add: E_def)
      have "x < 2 powi (expo x + 1)" by (rule expo_bounds(2)[OF x])
      also have "\<dots> \<le> 2 powi (- 1022)" using False by (intro two_powi_mono) simp
      finally have "x \<le> u * of_int (2 ^ 52)"
        unfolding powi_split0[of "- 1022"] u_def EE by simp
      then have "x / u \<le> of_int (2 ^ 52)" using u by (simp add: field_simps)
      from rne_mono[OF this] have k52: "k \<le> 2 ^ 52" by (simp add: k_def)
      have uu: "u = 2 powi (- 1074)" by (simp add: u_def EE)
      show ?thesis
      proof (cases "k < 2 ^ 52")
        case True
        from kn k0 have "0 < k" by simp
        from fl64_subnormal[OF this True] show ?thesis by (simp add: y uu)
      next
        case False
        with k52 have "k = 2 ^ 52" by simp
        then have "fl64 x = 2 powi (- 1022)"
          unfolding y powi_split0[of "- 1022"] uu by simp
        moreover have "fl64 (2 powi (- 1022)) = 2 powi (- 1022)"
          by (intro fl64_pow2) simp
        ultimately show ?thesis by (simp only:)
      qed
    qed
  qed
qed

subsection \<open>Start-up\<close>

lemma initial_T_value:
  assumes "i < n1" "j < n2" "k < length prof"
  shows "add3 (broadcast3 n1 n2 prof) (scale3 a (rand3 st (n1, n2, length prof))) ! i ! j ! k
         = fadd (prof ! k) (fmul a (st ((i * n2 + j) * length prof + k)))"
  using assms by (simp add: add3_def broadcast3_def scale3_def rand3_def)

lemma Field_sel [simp]:
  "fname (Field nm c shp) = nm"
  "layout (Field nm c shp) = Coeff"
  "data (Field nm c (n1, n2, n3)) = replicate c (zeros3 n1 n2 n3)"
  by (cases shp; simp add: Field_def)+

lemma restart_of_iff: "restart_of (prog # args) \<longleftrightarrow> (\<exists>rest. args = ''--restart'' # rest)"
  by (cases args) (auto simp: restart_of_def)

lemma startup_restart:
  assumes "restart_of (argv e)"
  shows "restart (startup e)"
    "stop_sim_time (solver (startup e)) = Some 20"
    "dt (startup e) = ck_dt (ckpt e)"
    "write_no (startup e) = Some (ck_write (ckpt e))"
    "sim_time (solver (startup e)) = ck_sim_time (ckpt e)"
    "iteration (solver (startup e)) = ck_iteration (ckpt e)"
    "map data (state (solver (startup e))) =
       map (ck_data (ckpt e)) [''u'', ''p'', ''T'', ''tau u'', ''tau T'']"
  using assms
  by (simp_all add: startup_def initial_condition_def t_end_of_def load_state_def
      InitialValueSolver_def Let_def variables_def)

lemma startup_fresh:
  assumes "\<not> restart_of (argv e)"
  shows "\<not> restart (startup e)"
    "stop_sim_time (solver (startup e)) = Some 10.01"
    "dt (startup e) = 0.05"
    "write_no (startup e) = None"
    "sim_time (solver (startup e)) = 0"
    "iteration (solver (startup e)) = 0"
  using assms
  by (simp_all add: startup_def initial_condition_def t_end_of_def
      InitialValueSolver_def Let_def)

lemma startup_fresh_T:
  assumes "\<not> restart_of (argv e)"
  shows "map data (filter (\<lambda>f. fname f = ''T'') (state (solver (startup e)))) =
     [[add3 (broadcast3 (nphi e) (ntheta e) (map (\<lambda>x. fsub 1 (fmul x x)) (rgrid e)))
         (scale3 0.5 (rand3 (draws e (42 + rank e)) (ball_shape e)))]]"
  using assms
  by (simp add: startup_def initial_condition_def t_end_of_def
      InitialValueSolver_def Let_def variables_def update_field_def Field_def ball_shape_def
      set_grid_def add_grid_def require_grid_space_def)

lemma fl64_one: "fl64 1 = 1"
  using fl64_pow2[of 0] by simp

lemma fl64_half: "fl64 (1/2) = 1/2"
  using fl64_pow2[of "- 1"] by simp

lemma fl64_quarter: "fl64 (1/4) = 1/4"
  using fl64_pow2[of "- 2"] by simp

lemma fl64_three_quarters: "fl64 (3/4) = 3/4"
  using fl64_representable[of "- 1" "3 * 2 ^ 51"] by simp

lemma fl64_below_half: "fl64 (1/2 - 1 / 2 ^ 54) = 1/2 - 1 / 2 ^ 54"
  using fl64_representable[of "- 2" "2 ^ 53 - 1"] by (simp add: field_simps)

lemma rne_up:
  assumes "of_int f \<le> x" "x < of_int f + 1" "1/2 < x - of_int f"
  shows "rne x = f + 1"
proof -
  have "\<lfloor>x\<rfloor> = f" using assms(1,2) by (intro floor_unique) simp_all
  with assms(3) show ?thesis by (simp add: rne_def Let_def)
qed

lemma fl64_below_five_quarters: "fl64 (5/4 - 1 / 2 ^ 54) = 5/4"
proof -
  let ?x = "5/4 - 1 / 2 ^ 54 :: real"
  have x: "0 < ?x" by simp
  have "expo ?x = 0" by (rule expo_unique) simp_all
  then have u: "ulp ?x = 1 / 2 ^ 52" using x by (simp add: ulp_def)
  have "rne (?x / (1 / 2 ^ 52)) = (5 * 2 ^ 50 - 1) + 1"
    by (rule rne_up) simp_all
  then show ?thesis using x unfolding fl64_def u by simp
qed

lemma initial_T_bounds:
  assumes "\<bar>r\<bar> \<le> 1" "0 \<le> d" "d < 1"
  shows "fsub 1 (fmul r r) \<le> fadd (fsub 1 (fmul r r)) (fmul 0.5 d)"
    and "fadd (fsub 1 (fmul r r)) (fmul 0.5 d) \<le> fadd (fsub 1 (fmul r r)) 0.5"
proof -
  define s where "s = fmul r r"
  define a where "a = fsub 1 s"
  define h where "h = fmul 0.5 d"
  have rr0: "0 \<le> r * r" by simp
  have "\<bar>r\<bar> * \<bar>r\<bar> \<le> 1 * 1" using assms(1) by (intro mult_mono) simp_all
  then have rr1: "r * r \<le> 1" by (simp add: abs_mult_self_eq)
  note rr = rr0 rr1
  have s0: "0 \<le> s" unfolding s_def fmul_def using rr(1) by (rule fl64_nonneg)
  have "fl64 (r * r) \<le> fl64 1" using rr by (rule fl64_mono_nonneg)
  then have s1: "s \<le> 1" by (simp add: s_def fmul_def fl64_one)
  have a0: "0 \<le> a" unfolding a_def fsub_def using s1 by (intro fl64_nonneg) simp
  have aa: "fl64 a = a" unfolding a_def fsub_def using s1 by (intro fl64_idem_nonneg) simp
  have h0: "0 \<le> h" unfolding h_def fmul_def using assms(2) by (intro fl64_nonneg) simp
  have "fl64 (0.5 * d) \<le> fl64 0.5" using assms(2,3) by (intro fl64_mono_nonneg) simp_all
  then have h1: "h \<le> 0.5" using fl64_half by (simp add: h_def fmul_def)
  have "fl64 a \<le> fl64 (a + h)" using a0 h0 by (intro fl64_mono_nonneg) simp_all
  then have 1: "a \<le> fadd a h" by (simp add: aa fadd_def)
  have "fl64 (a + h) \<le> fl64 (a + 0.5)" using a0 h0 h1 by (intro fl64_mono_nonneg) simp_all
  then have 2: "fadd a h \<le> fadd a 0.5" by (simp add: fadd_def)
  from 1 show "fsub 1 (fmul r r) \<le> fadd (fsub 1 (fmul r r)) (fmul 0.5 d)"
    by (simp add: a_def s_def h_def)
  from 2 show "fadd (fsub 1 (fmul r r)) (fmul 0.5 d) \<le> fadd (fsub 1 (fmul r r)) 0.5"
    by (simp add: a_def s_def h_def)
qed


text \<open>
  Claim C10, as amended. Restart mode is on exactly when the script gets at least one
  command-line argument and the first one is \<^verbatim>\<open>--restart\<close>. In restart mode the stop
  time is 20 and the write number, the step size, the time, the iteration and the state
  buffers come from the checkpoint. Otherwise the stop time is 10.01, the step size starts
  at 0.05, and, for radii of the unit ball and draws from [0, 1), every grid value of the
  initial temperature lies in the closed interval from \<^verbatim>\<open>1 - r**2\<close> to
  \<^verbatim>\<open>1 - r**2 + 0.5\<close>, both ends being the float64 values of these expressions.
\<close>

theorem restart_and_initial_condition:
  "(restart_of (prog # args) \<longleftrightarrow> (\<exists>rest. args = ''--restart'' # rest)) \<and>
   (restart (startup e) \<longleftrightarrow> restart_of (argv e)) \<and>
   (restart_of (argv e) \<longrightarrow>
      stop_sim_time (solver (startup e)) = Some 20 \<and>
      write_no (startup e) = Some (ck_write (ckpt e)) \<and>
      dt (startup e) = ck_dt (ckpt e) \<and>
      sim_time (solver (startup e)) = ck_sim_time (ckpt e) \<and>
      iteration (solver (startup e)) = ck_iteration (ckpt e) \<and>
      map data (state (solver (startup e))) =
        map (ck_data (ckpt e)) [''u'', ''p'', ''T'', ''tau u'', ''tau T'']) \<and>
   (\<not> restart_of (argv e) \<longrightarrow>
      stop_sim_time (solver (startup e)) = Some 10.01 \<and>
      dt (startup e) = 0.05 \<and>
      (\<exists>A. map data (filter (\<lambda>f. fname f = ''T'') (state (solver (startup e)))) = [[A]] \<and>
           ((\<forall>n. 0 \<le> draws e (42 + rank e) n \<and> draws e (42 + rank e) n < 1) \<and>
            (\<forall>r\<in>set (rgrid e). \<bar>r\<bar> \<le> 1) \<longrightarrow>
            (\<forall>i<nphi e. \<forall>j<ntheta e. \<forall>k<length (rgrid e).
               fsub 1 (fmul (rgrid e ! k) (rgrid e ! k)) \<le> A ! i ! j ! k \<and>
               A ! i ! j ! k \<le> fadd (fsub 1 (fmul (rgrid e ! k) (rgrid e ! k))) 0.5))))"
proof (intro conjI impI)
  show "restart_of (prog # args) \<longleftrightarrow> (\<exists>rest. args = ''--restart'' # rest)"
    by (rule restart_of_iff)
  show "restart (startup e) \<longleftrightarrow> restart_of (argv e)"
    using startup_restart(1) startup_fresh(1) by blast
next
  assume r: "restart_of (argv e)"
  from startup_restart[OF r]
  show "stop_sim_time (solver (startup e)) = Some 20"
    "write_no (startup e) = Some (ck_write (ckpt e))"
    "dt (startup e) = ck_dt (ckpt e)"
    "sim_time (solver (startup e)) = ck_sim_time (ckpt e)"
    "iteration (solver (startup e)) = ck_iteration (ckpt e)"
    "map data (state (solver (startup e))) =
        map (ck_data (ckpt e)) [''u'', ''p'', ''T'', ''tau u'', ''tau T'']"
    by simp_all
next
  assume f: "\<not> restart_of (argv e)"
  from startup_fresh[OF f]
  show "stop_sim_time (solver (startup e)) = Some 10.01" "dt (startup e) = 0.05"
    by simp_all
  let ?A = "add3 (broadcast3 (nphi e) (ntheta e) (map (\<lambda>x. fsub 1 (fmul x x)) (rgrid e)))
         (scale3 0.5 (rand3 (draws e (42 + rank e)) (ball_shape e)))"
  have val: "?A ! i ! j ! k = fadd (fsub 1 (fmul (rgrid e ! k) (rgrid e ! k)))
        (fmul 0.5 (draws e (42 + rank e) ((i * ntheta e + j) * length (rgrid e) + k)))"
    if "i < nphi e" "j < ntheta e" "k < length (rgrid e)" for i j k
    using initial_T_value[of i "nphi e" j "ntheta e" k
        "map (\<lambda>x. fsub 1 (fmul x x)) (rgrid e)"] that
    by (simp add: ball_shape_def)
  show "\<exists>A. map data (filter (\<lambda>f. fname f = ''T'') (state (solver (startup e)))) = [[A]] \<and>
           ((\<forall>n. 0 \<le> draws e (42 + rank e) n \<and> draws e (42 + rank e) n < 1) \<and>
            (\<forall>r\<in>set (rgrid e). \<bar>r\<bar> \<le> 1) \<longrightarrow>
            (\<forall>i<nphi e. \<forall>j<ntheta e. \<forall>k<length (rgrid e).
               fsub 1 (fmul (rgrid e ! k) (rgrid e ! k)) \<le> A ! i ! j ! k \<and>
               A ! i ! j ! k \<le> fadd (fsub 1 (fmul (rgrid e ! k) (rgrid e ! k))) 0.5))"
  proof (intro exI[of _ ?A] conjI impI allI)
    show "map data (filter (\<lambda>f. fname f = ''T'') (state (solver (startup e)))) = [[?A]]"
      by (rule startup_fresh_T[OF f])
  next
    fix i j k
    assume h: "(\<forall>n. 0 \<le> draws e (42 + rank e) n \<and> draws e (42 + rank e) n < 1) \<and>
            (\<forall>r\<in>set (rgrid e). \<bar>r\<bar> \<le> 1)"
      and b: "i < nphi e" "j < ntheta e" "k < length (rgrid e)"
    let ?d = "draws e (42 + rank e) ((i * ntheta e + j) * length (rgrid e) + k)"
    from h have d: "0 \<le> ?d" "?d < 1" by blast+
    from h b(3) have r: "\<bar>rgrid e ! k\<bar> \<le> 1" by simp
    from initial_T_bounds[OF r d]
    show "fsub 1 (fmul (rgrid e ! k) (rgrid e ! k)) \<le> ?A ! i ! j ! k"
      "?A ! i ! j ! k \<le> fadd (fsub 1 (fmul (rgrid e ! k) (rgrid e ! k))) 0.5"
      unfolding val[OF b] by simp_all
  qed
qed

text \<open>The two example runs: a restart and a first run on a one-point grid.\<close>

theorem restart_and_initial_condition_witness:
  "restart_of (argv restart_env) \<and>
   stop_sim_time (solver (startup restart_env)) = Some 20 \<and>
   write_no (startup restart_env) = Some 11 \<and>
   dt (startup restart_env) = 0.01 \<and>
   \<not> restart_of (argv quiet_env) \<and>
   stop_sim_time (solver (startup quiet_env)) = Some 10.01 \<and>
   dt (startup quiet_env) = 0.05 \<and>
   (\<forall>n. 0 \<le> draws quiet_env (42 + rank quiet_env) n \<and> draws quiet_env (42 + rank quiet_env) n < 1) \<and>
   \<bar>rgrid quiet_env ! 0\<bar> \<le> 1 \<and>
   (\<exists>A. map data (filter (\<lambda>f. fname f = ''T'') (state (solver (startup quiet_env)))) = [[A]] \<and>
        fsub 1 (fmul (1/2) (1/2)) \<le> A ! 0 ! 0 ! 0 \<and>
        A ! 0 ! 0 ! 0 \<le> fadd (fsub 1 (fmul (1/2) (1/2))) 0.5)"
proof -
  have r: "restart_of (argv restart_env)"
    by (simp add: restart_env_def quiet_env_def restart_of_def)
  have f: "\<not> restart_of (argv quiet_env)"
    by (simp add: quiet_env_def restart_of_def)
  have d: "\<forall>n. 0 \<le> draws quiet_env (42 + rank quiet_env) n \<and> draws quiet_env (42 + rank quiet_env) n < 1"
    by (simp add: quiet_env_def)
  have rg: "\<forall>r\<in>set (rgrid quiet_env). \<bar>r\<bar> \<le> 1" "\<bar>rgrid quiet_env ! 0\<bar> \<le> 1"
    by (simp_all add: quiet_env_def)
  have sz: "0 < nphi quiet_env" "0 < ntheta quiet_env" "0 < length (rgrid quiet_env)"
    "rgrid quiet_env ! 0 = 1/2"
    by (simp_all add: quiet_env_def)
  have ck: "ck_write (ckpt restart_env) = 11" "ck_dt (ckpt restart_env) = 0.01"
    by (simp_all add: restart_env_def)
  from restart_and_initial_condition[where e = restart_env] r ck
  have A: "stop_sim_time (solver (startup restart_env)) = Some 20 \<and>
   write_no (startup restart_env) = Some 11 \<and>
   dt (startup restart_env) = 0.01" by simp
  from restart_and_initial_condition[where e = quiet_env] f
  have B: "stop_sim_time (solver (startup quiet_env)) = Some 10.01 \<and>
   dt (startup quiet_env) = 0.05" by simp
  from restart_and_initial_condition[where e = quiet_env] f d rg(1)
  have "\<exists>A. map data (filter (\<lambda>f. fname f = ''T'') (state (solver (startup quiet_env)))) = [[A]] \<and>
           (\<forall>i<nphi quiet_env. \<forall>j<ntheta quiet_env. \<forall>k<length (rgrid quiet_env).
               fsub 1 (fmul (rgrid quiet_env ! k) (rgrid quiet_env ! k)) \<le> A ! i ! j ! k \<and>
               A ! i ! j ! k \<le> fadd (fsub 1 (fmul (rgrid quiet_env ! k) (rgrid quiet_env ! k))) 0.5)"
    by simp
  then obtain A where m: "map data (filter (\<lambda>f. fname f = ''T'') (state (solver (startup quiet_env)))) = [[A]]"
    and al: "\<forall>i<nphi quiet_env. \<forall>j<ntheta quiet_env. \<forall>k<length (rgrid quiet_env).
               fsub 1 (fmul (rgrid quiet_env ! k) (rgrid quiet_env ! k)) \<le> A ! i ! j ! k \<and>
               A ! i ! j ! k \<le> fadd (fsub 1 (fmul (rgrid quiet_env ! k) (rgrid quiet_env ! k))) 0.5"
    by (elim exE conjE)
  from al sz(1-3) have "fsub 1 (fmul (rgrid quiet_env ! 0) (rgrid quiet_env ! 0)) \<le> A ! 0 ! 0 ! 0 \<and>
               A ! 0 ! 0 ! 0 \<le> fadd (fsub 1 (fmul (rgrid quiet_env ! 0) (rgrid quiet_env ! 0))) 0.5"
    by (elim allE impE) assumption+
  from this[unfolded sz(4)] m have C: "\<exists>A. map data (filter (\<lambda>f. fname f = ''T'') (state (solver (startup quiet_env)))) = [[A]] \<and>
        fsub 1 (fmul (1/2) (1/2)) \<le> A ! 0 ! 0 ! 0 \<and>
        A ! 0 ! 0 ! 0 \<le> fadd (fsub 1 (fmul (1/2) (1/2))) 0.5"
    by (intro exI[of _ A] conjI) (elim conjE, assumption)+
  from r f d rg(2) A B C show ?thesis by (intro conjI) (elim conjE, assumption)+
qed

lemma edge_sel:
  "\<not> restart_of (argv edge_env)" "nphi edge_env = 1" "ntheta edge_env = 1"
  "rgrid edge_env = [1/2]" "draws edge_env = (\<lambda>seed n. 1 - 1 / 2 ^ 53)"
  by (simp_all add: edge_env_def quiet_env_def restart_of_def)

text \<open>
  Claim C10, as stated, fails at the upper end of the interval. At radius 1/2 and the draw
  \<open>1 - 1 / 2 ^ 53\<close>, line 113 stores 3/4 and line 114 adds \<open>1/2 - 1 / 2 ^ 54\<close>; the
  exact sum \<open>5/4 - 1 / 2 ^ 54\<close> rounds to 5/4, which is \<open>1 - r^2 + 0.5\<close> itself and not
  below it.
\<close>

theorem initial_temperature_attains_upper_end:
  "\<not> restart_of (argv edge_env) \<and>
   0 \<le> draws edge_env (42 + rank edge_env) 0 \<and>
   draws edge_env (42 + rank edge_env) 0 < 1 \<and>
   map data (filter (\<lambda>f. fname f = ''T'') (state (solver (startup edge_env)))) = [[[[[5/4]]]]] \<and>
   \<not> ((5/4::real) < 1 - (rgrid edge_env ! 0)\<^sup>2 + 0.5)"
proof -
  have 1: "fmul (1/2) (1/2) = 1/4" by (simp add: fmul_def fl64_quarter)
  have 2: "fsub 1 (1/4) = 3/4" by (simp add: fsub_def fl64_three_quarters)
  have "(1/2) * (1 - 1 / 2 ^ 53) = (1/2 - 1 / 2 ^ 54 :: real)" by simp
  then have 3: "fmul (1/2) (1 - 1 / 2 ^ 53) = 1/2 - 1 / 2 ^ 54"
    unfolding fmul_def by (simp only: fl64_below_half)
  have "3/4 + (1/2 - 1 / 2 ^ 54) = (5/4 - 1 / 2 ^ 54 :: real)" by simp
  then have 4: "fadd (3/4) (1/2 - 1 / 2 ^ 54) = 5/4"
    unfolding fadd_def by (simp only: fl64_below_five_quarters)
  have "map data (filter (\<lambda>f. fname f = ''T'') (state (solver (startup edge_env)))) =
      [[[[[fadd (fsub 1 (fmul (1/2) (1/2))) (fmul (1/2) (1 - 1 / 2 ^ 53))]]]]]"
    unfolding startup_fresh_T[OF edge_sel(1)]
    by (simp add: edge_sel ball_shape_def add3_def broadcast3_def scale3_def rand3_def)
  then have "map data (filter (\<lambda>f. fname f = ''T'') (state (solver (startup edge_env)))) = [[[[[5/4]]]]]"
    by (simp only: 1 2 3 4)
  then show ?thesis by (simp add: edge_sel power2_eq_square)
qed

subsection \<open>One pass of the loop\<close>

lemma compute_timestep_pair:
  "compute_timestep c cs =
     (fst (compute_timestep c cs), c\<lparr>stored_dt := fst (compute_timestep c cs)\<rparr>)"
  by (simp add: compute_timestep_def Let_def)

lemma loop_body_unfold:
  "loop_body e s =
     (let d = next_dt e s;
          sv = step e d (solver s);
          tr1 = trace s @ [CFLQuery d, Step d];
          tr2 = (if (iteration sv - 1) mod 10 = 0
                 then tr1 @ [LogInfo (sim_time sv) d] else tr1)
      in if iteration sv mod hermitian_cadence \<in> {0, 1}
         then s\<lparr>dt := d, CFL := (CFL s)\<lparr>stored_dt := d\<rparr>,
                solver := sv\<lparr>state := map (require_grid_space e) (state sv)\<rparr>,
                trace := tr2 @ map (\<lambda>f. Symmetrize (iteration sv) (fname f)) (state sv)\<rparr>
         else s\<lparr>dt := d, CFL := (CFL s)\<lparr>stored_dt := d\<rparr>, solver := sv, trace := tr2\<rparr>)"
  unfolding loop_body_def next_dt_def
  by (subst compute_timestep_pair) (simp only: prod.case Let_def)

lemma step_sel [simp]:
  "sim_time (step e d sv) = sim_time sv + d"
  "iteration (step e d sv) = iteration sv + 1"
  "stop_sim_time (step e d sv) = stop_sim_time sv"
  "map fname (state (step e d sv)) = map fname (state sv)"
  "map layout (state (step e d sv)) = map (\<lambda>f. Coeff) (state sv)"
  by (simp_all add: step_def comp_def)

lemma loop_body_sel:
  "dt (loop_body e s) = next_dt e s"
  "CFL (loop_body e s) = (CFL s)\<lparr>stored_dt := next_dt e s\<rparr>"
  "sim_time (solver (loop_body e s)) = sim_time (solver s) + next_dt e s"
  "iteration (solver (loop_body e s)) = iteration (solver s) + 1"
  "stop_sim_time (solver (loop_body e s)) = stop_sim_time (solver s)"
  "r_vec (loop_body e s) = r_vec s"
  "restart (loop_body e s) = restart s"
  "t_end (loop_body e s) = t_end s"
  by (simp_all add: loop_body_unfold Let_def)

lemma loop_body_state:
  "state (solver (loop_body e s)) =
     (if (iteration (solver s) + 1) mod 100 \<in> {0, 1}
      then map (require_grid_space e) (state (step e (next_dt e s) (solver s)))
      else state (step e (next_dt e s) (solver s)))"
  by (simp add: loop_body_unfold Let_def hermitian_cadence_def)

lemma loop_body_trace:
  "trace (loop_body e s) =
     trace s @ [CFLQuery (next_dt e s), Step (next_dt e s)]
       @ (if iteration (solver s) mod 10 = 0
          then [LogInfo (sim_time (solver s) + next_dt e s) (next_dt e s)] else [])
       @ (if (iteration (solver s) + 1) mod 100 \<in> {0, 1}
          then map (\<lambda>f. Symmetrize (iteration (solver s) + 1) (fname f)) (state (solver s))
          else [])"
  by (simp add: loop_body_unfold Let_def hermitian_cadence_def step_def comp_def)

lemma require_grid_space_fname [simp]: "fname (require_grid_space e f) = fname f"
  by (simp add: require_grid_space_def split: layout.split)

lemma require_grid_space_layout [simp]: "layout (require_grid_space e f) = Grid"
  by (simp add: require_grid_space_def split: layout.split)

lemma loop_body_names:
  "map fname (state (solver (loop_body e s))) = map fname (state (solver s))"
  by (simp add: loop_body_state comp_def step_def)

lemma passes_add: "passes (m + n) e s = passes n e (passes m e s)"
  by (induction m arbitrary: s) simp_all

lemma passes_Suc_right: "passes (Suc n) e s = loop_body e (passes n e s)"
  using passes_add[of n 1 e s] by simp

lemma passes_iteration: "iteration (solver (passes n e s)) = iteration (solver s) + int n"
  by (induction n arbitrary: s) (simp_all add: loop_body_sel)

lemma passes_names: "map fname (state (solver (passes n e s))) = map fname (state (solver s))"
  by (induction n arbitrary: s) (simp_all add: loop_body_names)

lemma passes_frame:
  "r_vec (passes n e s) = r_vec s"
  "restart (passes n e s) = restart s"
  "stop_sim_time (solver (passes n e s)) = stop_sim_time (solver s)"
  "max_dt (CFL (passes n e s)) = max_dt (CFL s)"
  "threshold (CFL (passes n e s)) = threshold (CFL s)"
  "safety (CFL (passes n e s)) = safety (CFL s)"
  by (induction n arbitrary: s) (simp_all add: loop_body_sel)

lemma startup_names:
  "map fname (state (solver (startup e))) = [''u'', ''p'', ''T'', ''tau u'', ''tau T'']"
  by (simp add: startup_def initial_condition_def InitialValueSolver_def Let_def variables_def
      update_field_def load_state_def set_grid_def add_grid_def  split: prod.split)

lemma startup_trace: "trace (startup e) = []"
  by (simp add: startup_def Let_def split: prod.split)

lemma symmetrize_in_trace:
  "Symmetrize i nm \<in> set (trace (passes n e s)) \<longleftrightarrow>
     Symmetrize i nm \<in> set (trace s) \<or>
     (iteration (solver s) < i \<and> i \<le> iteration (solver s) + int n \<and> i mod 100 \<in> {0, 1} \<and>
      nm \<in> fname ` set (state (solver s)))"
proof (induction n)
  case 0
  then show ?case by auto
next
  case (Suc n)
  let ?s = "passes n e s"
  have names: "fname ` set (state (solver ?s)) = fname ` set (state (solver s))"
    using passes_names[of n e s] by (metis list.set_map)
  have "Symmetrize i nm \<in> set (trace (passes (Suc n) e s)) \<longleftrightarrow>
      Symmetrize i nm \<in> set (trace ?s) \<or>
      (i = iteration (solver s) + int n + 1 \<and> i mod 100 \<in> {0, 1} \<and>
       nm \<in> fname ` set (state (solver s)))"
    unfolding passes_Suc_right loop_body_trace
    using names by (auto simp: passes_iteration)
  with Suc show ?case by auto
qed

subsection \<open>Symmetrization\<close>

lemma quiet_iteration: "iteration (solver (startup quiet_env)) = 0"
  by (rule startup_fresh) (simp add: quiet_env_def restart_of_def)

text \<open>
  Claim C6. In a run of the main loop, hermitian symmetry is forced (every state field is
  taken to grid space) at exactly the iterations \<open>i\<close> with \<open>i mod 100\<close> in {0, 1}, for
  each of the five state fields; \<open>hermitian_cadence\<close> is 100. In one pass the counter
  goes up by one and the state fields are those the solver step left, transformed when
  the new iteration number is due and untouched otherwise.
\<close>

theorem hermitian_symmetry_schedule:
  "(Symmetrize i nm \<in> set (trace (passes n e (startup e))) \<longleftrightarrow>
      iteration (solver (startup e)) < i \<and> i \<le> iteration (solver (startup e)) + int n \<and>
      i mod 100 \<in> {0, 1} \<and> nm \<in> {''u'', ''p'', ''T'', ''tau u'', ''tau T''}) \<and>
   hermitian_cadence = 100 \<and>
   iteration (solver (loop_body e s)) = iteration (solver s) + 1 \<and>
   state (solver (loop_body e s)) =
     (if iteration (solver (loop_body e s)) mod hermitian_cadence \<in> {0, 1}
      then map (require_grid_space e) (state (step e (next_dt e s) (solver s)))
      else state (step e (next_dt e s) (solver s)))"
proof -
  have "fname ` set (state (solver (startup e))) = {''u'', ''p'', ''T'', ''tau u'', ''tau T''}"
    using startup_names[of e] by (metis list.set_map list.simps(15) empty_set)
  then have "Symmetrize i nm \<in> set (trace (passes n e (startup e))) \<longleftrightarrow>
      iteration (solver (startup e)) < i \<and> i \<le> iteration (solver (startup e)) + int n \<and>
      i mod 100 \<in> {0, 1} \<and> nm \<in> {''u'', ''p'', ''T'', ''tau u'', ''tau T''}"
    using symmetrize_in_trace[of i nm n e "startup e"] by (simp add: startup_trace)
  moreover have "state (solver (loop_body e s)) =
     (if iteration (solver (loop_body e s)) mod hermitian_cadence \<in> {0, 1}
      then map (require_grid_space e) (state (step e (next_dt e s) (solver s)))
      else state (step e (next_dt e s) (solver s)))"
    by (simp add: loop_body_state loop_body_sel hermitian_cadence_def)
  ultimately show ?thesis
    by (simp add: loop_body_sel hermitian_cadence_def)
qed


text \<open>In the first 250 passes of a first run: iterations 1, 200 and 201, not 99 or 202.\<close>

theorem hermitian_symmetry_schedule_witness:
  "Symmetrize 1 ''u'' \<in> set (trace (passes 250 quiet_env (startup quiet_env))) \<and>
   Symmetrize 200 ''T'' \<in> set (trace (passes 250 quiet_env (startup quiet_env))) \<and>
   Symmetrize 201 ''tau u'' \<in> set (trace (passes 250 quiet_env (startup quiet_env))) \<and>
   Symmetrize 202 ''T'' \<notin> set (trace (passes 250 quiet_env (startup quiet_env))) \<and>
   Symmetrize 99 ''p'' \<notin> set (trace (passes 250 quiet_env (startup quiet_env)))"
  using hermitian_symmetry_schedule[THEN conjunct1, of 1 "''u''" 250 quiet_env]
    hermitian_symmetry_schedule[THEN conjunct1, of 200 "''T''" 250 quiet_env]
    hermitian_symmetry_schedule[THEN conjunct1, of 201 "''tau u''" 250 quiet_env]
    hermitian_symmetry_schedule[THEN conjunct1, of 202 "''T''" 250 quiet_env]
    hermitian_symmetry_schedule[THEN conjunct1, of 99 "''p''" 250 quiet_env]
  by (simp add: quiet_iteration)

subsection \<open>Step size\<close>

lemma next_dt_cases:
  "next_dt e s =
     (case courant_bound (safety (CFL s)) (velocity_cells e (state (solver s))) of
        None \<Rightarrow> max_dt (CFL s)
      | Some b \<Rightarrow>
          min (if \<bar>b - stored_dt (CFL s)\<bar> < threshold (CFL s) * stored_dt (CFL s)
               then stored_dt (CFL s) else b)
              (max_dt (CFL s)))"
  by (simp add: next_dt_def compute_timestep_def Let_def)

lemma next_dt_le_max: "next_dt e s \<le> max_dt (CFL s)"
  by (simp add: next_dt_cases split: option.split)

lemma next_dt_le_bound:
  assumes "courant_bound (safety (CFL s)) (velocity_cells e (state (solver s))) = Some b"
  shows "next_dt e s \<le> b \<or>
         (\<bar>b - stored_dt (CFL s)\<bar> < threshold (CFL s) * stored_dt (CFL s) \<and>
          next_dt e s \<le> stored_dt (CFL s))"
  using assms by (simp add: next_dt_cases)

lemma startup_cfl:
  "safety (CFL (startup e)) = 0.35" "threshold (CFL (startup e)) = 0.1"
  "max_dt (CFL (startup e)) = 0.05" "stored_dt (CFL (startup e)) = dt (startup e)"
  by (simp_all add: startup_def Let_def split: prod.split)

lemma passes_stored: "stored_dt (CFL (passes n e s)) = (if n = 0 then stored_dt (CFL s) else dt (passes n e s))"
proof (cases n)
  case 0
  then show ?thesis by simp
next
  case (Suc m)
  then show ?thesis by (simp add: passes_Suc_right loop_body_sel del: passes.simps)
qed

lemma control_trace:
  "filter control (drop (length (trace s)) (trace (loop_body e s))) =
     [CFLQuery (next_dt e s), Step (next_dt e s)]"
  by (simp add: loop_body_trace filter_map comp_def)

lemma run_cfl:
  "safety (CFL (passes n e (startup e))) = 0.35"
  "threshold (CFL (passes n e (startup e))) = 0.1"
  "max_dt (CFL (passes n e (startup e))) = 0.05"
  by (simp_all add: passes_frame startup_cfl)

lemma hysteresis_bound:
  fixes b st d :: real
  assumes "d = min (if \<bar>b - st\<bar> < 1/10 * st then st else b) (1/20)" "0 \<le> b"
  shows "9/10 * d \<le> b"
proof (cases "\<bar>b - st\<bar> < 1/10 * st")
  case True
  then have "9/10 * st < b" by linarith
  moreover from True assms(1) have "d \<le> st" by simp
  ultimately show ?thesis by linarith
next
  case False
  with assms have "d \<le> b" "0 \<le> d" by simp_all
  then show ?thesis by linarith
qed

lemma run_next_dt:
  "next_dt e (passes n e (startup e)) =
     (case courant_bound 0.35 (velocity_cells e (state (solver (passes n e (startup e))))) of
        None \<Rightarrow> 0.05
      | Some b \<Rightarrow>
          min (if \<bar>b - stored_dt (CFL (passes n e (startup e)))\<bar>
                   < 0.1 * stored_dt (CFL (passes n e (startup e)))
               then stored_dt (CFL (passes n e (startup e))) else b)
              0.05)"
  by (simp only: next_dt_cases run_cfl)

lemma velocity_cells_names:
  assumes "map fname fs = [''u'', ''p'', ''T'', ''tau u'', ''tau T'']"
  shows "velocity_cells e fs = cells e (fs ! 0)"
  using assms by (auto simp: map_eq_Cons_conv velocity_cells_def)

lemma run_cells:
  "velocity_cells e (state (solver (passes n e (startup e)))) =
     cells e (state (solver (passes n e (startup e))) ! 0)"
  by (rule velocity_cells_names) (simp add: passes_names startup_names)

lemma quiet_cells:
  "velocity_cells quiet_env (state (solver (passes n quiet_env (startup quiet_env)))) = [(1, 1)]"
  by (simp add: run_cells) (simp add: quiet_env_def)

lemma quiet_bound:
  "courant_bound 0.35 (velocity_cells quiet_env (state (solver (passes n quiet_env (startup quiet_env)))))
     = Some 0.35"
  by (simp add: quiet_cells courant_bound_def)

text \<open>
  Claim C2. In every pass of the main loop of a run, the controller is queried exactly
  once and the solver advanced exactly once, in that order and with the step size the
  query returned. That step size is at most \<open>max_dt\<close> = 0.05. When the Courant condition
  gives a bound \<open>b\<close> (safety 0.35 times the least grid spacing over speed), the step
  size is at most \<open>b\<close>, or the change was within the hysteresis threshold 0.1 of the
  previous step size, which is then kept; either way nine tenths of the step size is at
  most \<open>b\<close>. When no grid point has a velocity, the step size is \<open>max_dt\<close>.
\<close>

theorem cfl_bound_respected:
  "filter control (drop (length (trace (passes n e (startup e))))
       (trace (loop_body e (passes n e (startup e))))) =
     [CFLQuery (next_dt e (passes n e (startup e))), Step (next_dt e (passes n e (startup e)))] \<and>
   sim_time (solver (loop_body e (passes n e (startup e)))) =
     sim_time (solver (passes n e (startup e))) + next_dt e (passes n e (startup e)) \<and>
   dt (loop_body e (passes n e (startup e))) = next_dt e (passes n e (startup e)) \<and>
   max_dt (CFL (passes n e (startup e))) = 0.05 \<and>
   next_dt e (passes n e (startup e)) \<le> 0.05 \<and>
   (courant_bound 0.35 (velocity_cells e (state (solver (passes n e (startup e))))) = None \<longrightarrow>
      next_dt e (passes n e (startup e)) = 0.05) \<and>
   (\<forall>b. courant_bound 0.35 (velocity_cells e (state (solver (passes n e (startup e))))) = Some b \<longrightarrow>
      (next_dt e (passes n e (startup e)) \<le> b \<or>
       (\<bar>b - stored_dt (CFL (passes n e (startup e)))\<bar>
            < 0.1 * stored_dt (CFL (passes n e (startup e))) \<and>
        next_dt e (passes n e (startup e)) \<le> stored_dt (CFL (passes n e (startup e))))) \<and>
      (0 \<le> b \<longrightarrow> 0.9 * next_dt e (passes n e (startup e)) \<le> b))"
proof -
  let ?s = "passes n e (startup e)"
  note p = run_cfl[of n e]
  have 1: "filter control (drop (length (trace ?s)) (trace (loop_body e ?s))) =
     [CFLQuery (next_dt e ?s), Step (next_dt e ?s)]"
    by (rule control_trace)
  have 2: "sim_time (solver (loop_body e ?s)) = sim_time (solver ?s) + next_dt e ?s"
    "dt (loop_body e ?s) = next_dt e ?s"
    by (simp_all add: loop_body_sel)
  have 3: "next_dt e ?s \<le> 0.05"
    using next_dt_le_max[of e ?s] by (simp only: p)
  have 4: "next_dt e ?s = 0.05"
    if "courant_bound 0.35 (velocity_cells e (state (solver ?s))) = None"
    using that by (simp add: run_next_dt)
  have 5: "next_dt e ?s \<le> b \<or>
       (\<bar>b - stored_dt (CFL ?s)\<bar> < 0.1 * stored_dt (CFL ?s) \<and> next_dt e ?s \<le> stored_dt (CFL ?s))"
    if "courant_bound 0.35 (velocity_cells e (state (solver ?s))) = Some b" for b
    using that by (simp add: run_next_dt)
  have 6: "0.9 * next_dt e ?s \<le> b"
    if "courant_bound 0.35 (velocity_cells e (state (solver ?s))) = Some b" "0 \<le> b" for b
  proof -
    have "next_dt e ?s = min (if \<bar>b - stored_dt (CFL ?s)\<bar> < 1/10 * stored_dt (CFL ?s)
                              then stored_dt (CFL ?s) else b) (1/20)"
      using that(1) by (simp add: run_next_dt)
    from hysteresis_bound[OF this that(2)] show ?thesis by simp
  qed
  from 1 2 3 4 5 6 p(3) show ?thesis by blast
qed

text \<open>The first pass of a first run with unit spacing and unit speed.\<close>

theorem cfl_bound_respected_witness:
  "courant_bound 0.35 (velocity_cells quiet_env (state (solver (passes 0 quiet_env (startup quiet_env)))))
     = Some 0.35 \<and>
   (0::real) \<le> 0.35 \<and>
   0.9 * next_dt quiet_env (passes 0 quiet_env (startup quiet_env)) \<le> 0.35 \<and>
   next_dt quiet_env (passes 0 quiet_env (startup quiet_env)) \<le> 0.05"
  using cfl_bound_respected[of 0 quiet_env] quiet_bound[of 0] by simp

subsection \<open>Termination of the main loop\<close>

lemma main_loop_passes:
  assumes "\<not> proceed (solver (passes n e s))"
    and "\<forall>m<n. proceed (solver (passes m e s))"
  shows "main_loop e s = Some (passes n e s)"
  using assms
proof (induction n arbitrary: s)
  case 0
  then show ?case by (simp add: main_loop.simps)
next
  case (Suc n)
  from Suc.prems(2) have p0: "proceed (solver s)" by force
  have "\<forall>m<n. proceed (solver (passes m e (loop_body e s)))"
    using Suc.prems(2) by (metis Suc_less_eq passes.simps(2))
  with Suc.IH[of "loop_body e s"] Suc.prems(1)
  have "main_loop e (loop_body e s) = Some (passes n e (loop_body e s))" by simp
  with p0 show ?case by (subst main_loop.simps) simp
qed

lemma main_loop_terminates:
  assumes "\<not> proceed (solver (passes n e s))"
  shows "\<exists>k\<le>n. main_loop e s = Some (passes k e s) \<and> \<not> proceed (solver (passes k e s))"
proof -
  define k where "k = (LEAST k. \<not> proceed (solver (passes k e s)))"
  have a: "\<not> proceed (solver (passes k e s))"
    unfolding k_def using assms by (rule LeastI)
  have b: "\<forall>m<k. proceed (solver (passes m e s))"
    unfolding k_def using not_less_Least by blast
  have "k \<le> n" unfolding k_def using assms by (rule Least_le)
  with main_loop_passes[OF a b] a show ?thesis by blast
qed

lemma next_dt_lower:
  assumes "0 < eps"
    and "\<And>b. courant_bound 0.35 (velocity_cells e (state (solver (passes n e (startup e))))) = Some b
           \<Longrightarrow> eps \<le> b"
  shows "min (eps / 2) 0.05 \<le> next_dt e (passes n e (startup e))"
proof (cases "courant_bound 0.35 (velocity_cells e (state (solver (passes n e (startup e)))))")
  case None
  then show ?thesis by (simp add: run_next_dt)
next
  case (Some b)
  let ?st = "stored_dt (CFL (passes n e (startup e)))"
  from assms(2)[OF Some] have eb: "eps \<le> b" .
  show ?thesis
  proof (cases "\<bar>b - ?st\<bar> < 0.1 * ?st")
    case True
    then have "b < 1.1 * ?st" by linarith
    with eb assms(1) have "eps / 2 \<le> ?st" by linarith
    with True Some show ?thesis by (simp add: run_next_dt min_def)
  next
    case False
    with Some eb assms(1) show ?thesis by (simp add: run_next_dt min_def)
  qed
qed

lemma run_sim_time_lower:
  assumes "0 < eps"
    and "\<forall>m<n. proceed (solver (passes m e (startup e)))"
    and "\<forall>m b. (\<forall>l\<le>m. proceed (solver (passes l e (startup e)))) \<longrightarrow>
           courant_bound 0.35 (velocity_cells e (state (solver (passes m e (startup e))))) = Some b
           \<longrightarrow> eps \<le> b"
  shows "sim_time (solver (startup e)) + real n * min (eps / 2) 0.05
           \<le> sim_time (solver (passes n e (startup e)))"
  using assms(2)
proof (induction n)
  case 0
  then show ?case by simp
next
  case (Suc n)
  from Suc.prems have pr: "\<forall>l\<le>n. proceed (solver (passes l e (startup e)))"
    by (simp add: less_Suc_eq_le)
  then have "\<forall>m<n. proceed (solver (passes m e (startup e)))" by simp
  from Suc.IH[OF this] have ih: "sim_time (solver (startup e)) + real n * min (eps / 2) 0.05
           \<le> sim_time (solver (passes n e (startup e)))" .
  have "min (eps / 2) 0.05 \<le> next_dt e (passes n e (startup e))"
    using assms(1,3) pr by (intro next_dt_lower) blast+
  moreover have "sim_time (solver (passes (Suc n) e (startup e))) =
      sim_time (solver (passes n e (startup e))) + next_dt e (passes n e (startup e))"
    by (simp add: passes_Suc_right loop_body_sel del: passes.simps)
  ultimately show ?case using ih by (simp add: algebra_simps del: passes.simps)
qed

lemma startup_stop: "stop_sim_time (solver (startup e)) = Some (t_end (startup e))"
  by (simp add: startup_def initial_condition_def InitialValueSolver_def load_state_def Let_def
      split: prod.split)

lemma run_proceed:
  "proceed (solver (passes n e (startup e))) \<longleftrightarrow>
     sim_time (solver (passes n e (startup e))) < t_end (startup e)"
  by (simp add: proceed_def passes_frame startup_stop)

lemma late_sel:
  "advance late_env = (\<lambda>it d fs nm. if nm = ''u'' then [[[[14 * 2 ^ nat it]]]] else [])"
  "to_grid late_env = (\<lambda>x. x)"
  "cells late_env = (\<lambda>f. map (\<lambda>x. (1, x)) (concat (concat (concat (data f)))))"
  "restart_of (argv late_env)"
  "ck_sim_time (ckpt late_env) = 19.99" "ck_dt (ckpt late_env) = 0.05"
  "ck_data (ckpt late_env) ''u'' = [[[[1]]]]"
  by (simp_all add: late_env_def blowup_env_def restart_of_def)

lemma late_cells: "velocity_cells late_env (state (solver (startup late_env))) = [(1, 1)]"
proof -
  have "map data (state (solver (startup late_env))) =
      map (ck_data (ckpt late_env)) [''u'', ''p'', ''T'', ''tau u'', ''tau T'']"
    by (rule startup_restart(7)[OF late_sel(4)])
  then have "data (state (solver (startup late_env)) ! 0) = [[[[1]]]]"
    by (auto simp: map_eq_Cons_conv late_sel(7))
  then show ?thesis
    using run_cells[of late_env 0] by (simp add: late_sel(3))
qed

lemma late_bound:
  "courant_bound 0.35 (velocity_cells late_env (state (solver (passes 0 late_env (startup late_env)))))
     = Some 0.35"
  by (simp add: late_cells courant_bound_def)

lemma late_stops: "\<not> proceed (solver (passes 1 late_env (startup late_env)))"
proof -
  have st: "stored_dt (CFL (startup late_env)) = 0.05"
    using startup_cfl(4)[of late_env] startup_restart(3)[OF late_sel(4)] by (simp add: late_sel)
  have "next_dt late_env (passes 0 late_env (startup late_env)) = 0.05"
    unfolding run_next_dt late_bound by (simp add: st)
  then have "sim_time (solver (passes 1 late_env (startup late_env))) = 19.99 + 0.05"
    using startup_restart(5)[OF late_sel(4)] by (simp add: loop_body_sel late_sel)
  moreover have "t_end (startup late_env) = 20"
    using startup_stop[of late_env] startup_restart(2)[OF late_sel(4)] by simp
  ultimately show ?thesis unfolding run_proceed by simp
qed

text \<open>
  Claim C7, as amended. A solver step advances the simulation time by exactly the step
  size and the iteration counter by exactly one. The main loop ends, with the simulation
  time at or beyond the stop time, whenever the Courant bounds met during the run (those
  of the passes the loop makes) stay above some positive \<open>eps\<close>: every step size is then
  at least the smaller of \<open>eps / 2\<close> and \<open>max_dt\<close>. That every step size is positive
  is not enough, see below.
\<close>

theorem step_advances_and_loop_terminates:
  assumes "0 < eps"
    and "\<forall>n b. (\<forall>m\<le>n. proceed (solver (passes m e (startup e)))) \<longrightarrow>
           courant_bound 0.35 (velocity_cells e (state (solver (passes n e (startup e))))) = Some b
           \<longrightarrow> eps \<le> b"
  shows "sim_time (step e d sv) = sim_time sv + d \<and>
         iteration (step e d sv) = iteration sv + 1 \<and>
         (\<exists>n. main_loop e (startup e) = Some (passes n e (startup e)) \<and>
              t_end (startup e) \<le> sim_time (solver (passes n e (startup e))))"
proof -
  define delta where "delta = min (eps / 2) (0.05::real)"
  have dpos: "0 < delta" using assms(1) by (simp add: delta_def)
  obtain n :: nat where n: "t_end (startup e) - sim_time (solver (startup e)) < real n * delta"
    using dpos by (meson ex_less_of_nat_mult mult.commute)
  have "\<exists>k. \<not> proceed (solver (passes k e (startup e)))"
  proof (rule ccontr)
    assume "\<not> (\<exists>k. \<not> proceed (solver (passes k e (startup e))))"
    then have all: "\<forall>k. proceed (solver (passes k e (startup e)))" by simp
    then have "\<forall>m<n. proceed (solver (passes m e (startup e)))" by simp
    from run_sim_time_lower[OF assms(1) this assms(2)]
    have "sim_time (solver (startup e)) + real n * delta
               \<le> sim_time (solver (passes n e (startup e)))"
      by (simp add: delta_def)
    with n have "\<not> proceed (solver (passes n e (startup e)))"
      by (simp add: run_proceed)
    with all show False by simp
  qed
  then obtain k0 where "\<not> proceed (solver (passes k0 e (startup e)))" by blast
  from main_loop_terminates[OF this] obtain k where
    "main_loop e (startup e) = Some (passes k e (startup e))"
    "\<not> proceed (solver (passes k e (startup e)))" by blast
  then have "\<exists>n. main_loop e (startup e) = Some (passes n e (startup e)) \<and>
              t_end (startup e) \<le> sim_time (solver (passes n e (startup e)))"
    by (auto simp: run_proceed)
  then show ?thesis by simp
qed

text \<open>
  A first run with unit spacing and unit speed, where every Courant bound is 0.35; and a
  restart at time 19.99, which makes one pass with the bound 0.35 and stops, whatever the
  speed would have become afterwards.
\<close>

theorem step_advances_and_loop_terminates_witness:
  "(0::real) < 0.35 \<and>
   courant_bound 0.35
     (velocity_cells quiet_env (state (solver (passes 7 quiet_env (startup quiet_env))))) = Some 0.35 \<and>
   (\<exists>n. main_loop quiet_env (startup quiet_env) = Some (passes n quiet_env (startup quiet_env)) \<and>
        t_end (startup quiet_env) \<le> sim_time (solver (passes n quiet_env (startup quiet_env)))) \<and>
   courant_bound 0.35
     (velocity_cells late_env (state (solver (passes 0 late_env (startup late_env))))) = Some 0.35 \<and>
   \<not> proceed (solver (passes 1 late_env (startup late_env))) \<and>
   (\<exists>n. main_loop late_env (startup late_env) = Some (passes n late_env (startup late_env)) \<and>
        t_end (startup late_env) \<le> sim_time (solver (passes n late_env (startup late_env))))"
proof -
  have p: "(0::real) < 0.35" by simp
  have h: "\<forall>n b. (\<forall>m\<le>n. proceed (solver (passes m quiet_env (startup quiet_env)))) \<longrightarrow>
          courant_bound 0.35
            (velocity_cells quiet_env (state (solver (passes n quiet_env (startup quiet_env))))) = Some b
          \<longrightarrow> 0.35 \<le> b"
    using quiet_bound by auto
  have l: "\<forall>n b. (\<forall>m\<le>n. proceed (solver (passes m late_env (startup late_env)))) \<longrightarrow>
          courant_bound 0.35
            (velocity_cells late_env (state (solver (passes n late_env (startup late_env))))) = Some b
          \<longrightarrow> 0.35 \<le> b"
  proof (intro allI impI)
    fix n b
    assume pr: "\<forall>m\<le>n. proceed (solver (passes m late_env (startup late_env)))"
      and cb: "courant_bound 0.35
            (velocity_cells late_env (state (solver (passes n late_env (startup late_env))))) = Some b"
    have "n = 0"
    proof (rule ccontr)
      assume "n \<noteq> 0"
      then have "1 \<le> n" by simp
      with pr have "proceed (solver (passes 1 late_env (startup late_env)))" by blast
      with late_stops show False by simp
    qed
    with cb late_bound show "0.35 \<le> b" by simp
  qed
  from step_advances_and_loop_terminates[OF p h] step_advances_and_loop_terminates[OF p l]
    p quiet_bound[of 7] late_bound late_stops
  show ?thesis by blast
qed

lemma main_loop_diverges:
  assumes inv: "\<And>s. I s \<Longrightarrow> proceed (solver s) \<and> I (loop_body e s)"
    and "I s"
  shows "main_loop e s = None"
proof -
  have "e' = e \<longrightarrow> \<not> I s'" if "main_loop e' s' = Some y" for e' s' y
  proof (rule main_loop.raw_induct[where P = "\<lambda>e' s' y. e' = e \<longrightarrow> \<not> I s'", OF _ that])
    fix ml :: "env \<Rightarrow> script \<Rightarrow> script option" and e0 s0 y0
    assume ih: "\<And>a b y. ml a b = Some y \<Longrightarrow> a = e \<longrightarrow> \<not> I b"
      and eq: "(if proceed (solver s0) then ml e0 (loop_body e0 s0) else Some s0) = Some y0"
    show "e0 = e \<longrightarrow> \<not> I s0"
    proof (intro impI notI)
      assume e: "e0 = e" and i: "I s0"
      from inv[OF i] have pr: "proceed (solver s0)" and i': "I (loop_body e s0)" by simp_all
      from eq e pr have "ml e (loop_body e s0) = Some y0" by simp
      from ih[OF this] i' show False by simp
    qed
  qed
  with assms(2) show ?thesis by (cases "main_loop e s") auto
qed

lemma blowup_sel:
  "advance blowup_env = (\<lambda>it d fs nm. if nm = ''u'' then [[[[14 * 2 ^ nat it]]]] else [])"
  "to_grid blowup_env = (\<lambda>x. x)"
  "cells blowup_env = (\<lambda>f. map (\<lambda>x. (1, x)) (concat (concat (concat (data f)))))"
  "nphi blowup_env = 0" "ntheta blowup_env = 0" "rgrid blowup_env = []"
  "\<not> restart_of (argv blowup_env)"
  by (simp_all add: blowup_env_def restart_of_def)

lemma blowup_cells_after:
  assumes "map fname (state (solver s)) = [''u'', ''p'', ''T'', ''tau u'', ''tau T'']"
  shows "velocity_cells blowup_env (state (solver (loop_body blowup_env s))) =
           [(1, 14 * 2 ^ nat (iteration (solver s)))]"
proof -
  from assms obtain f1 f2 f3 f4 f5 where fs: "state (solver s) = [f1, f2, f3, f4, f5]"
    and nm: "fname f1 = ''u''" "fname f2 = ''p''" "fname f3 = ''T''" "fname f4 = ''tau u''"
      "fname f5 = ''tau T''"
    by (auto simp: map_eq_Cons_conv)
  show ?thesis
    by (simp add: loop_body_state step_def fs nm velocity_cells_def blowup_sel
        require_grid_space_def)
qed


lemma set_grid_fname [simp]: "fname (set_grid A f) = fname f"
  by (simp add: set_grid_def)

lemma add_grid_fname [simp]: "fname (add_grid e A f) = fname f"
  by (simp add: add_grid_def Let_def)

lemma blowup_inv_iff:
  "blowup_inv s \<longleftrightarrow>
     (\<exists>k. iteration (solver s) = int (Suc k) \<and>
          velocity_cells blowup_env (state (solver s)) = [(1, 14 * 2 ^ k)] \<and>
          map fname (state (solver s)) = [''u'', ''p'', ''T'', ''tau u'', ''tau T''] \<and>
          stored_dt (CFL s) = 0.05 / 2 ^ k \<and>
          sim_time (solver s) = 0.1 - stored_dt (CFL s) \<and>
          stop_sim_time (solver s) = Some 10.01 \<and>
          safety (CFL s) = 0.35 \<and> threshold (CFL s) = 0.1 \<and> max_dt (CFL s) = 0.05)"
proof
  assume "blowup_inv s"
  then have "iteration (solver s) = int (Suc (nat (iteration (solver s) - 1)))"
    by (simp add: blowup_inv_def Let_def)
  with \<open>blowup_inv s\<close> show "\<exists>k. iteration (solver s) = int (Suc k) \<and>
          velocity_cells blowup_env (state (solver s)) = [(1, 14 * 2 ^ k)] \<and>
          map fname (state (solver s)) = [''u'', ''p'', ''T'', ''tau u'', ''tau T''] \<and>
          stored_dt (CFL s) = 0.05 / 2 ^ k \<and>
          sim_time (solver s) = 0.1 - stored_dt (CFL s) \<and>
          stop_sim_time (solver s) = Some 10.01 \<and>
          safety (CFL s) = 0.35 \<and> threshold (CFL s) = 0.1 \<and> max_dt (CFL s) = 0.05"
    unfolding blowup_inv_def Let_def by (intro exI[of _ "nat (iteration (solver s) - 1)"]) blast
next
  assume "\<exists>k. iteration (solver s) = int (Suc k) \<and>
          velocity_cells blowup_env (state (solver s)) = [(1, 14 * 2 ^ k)] \<and>
          map fname (state (solver s)) = [''u'', ''p'', ''T'', ''tau u'', ''tau T''] \<and>
          stored_dt (CFL s) = 0.05 / 2 ^ k \<and>
          sim_time (solver s) = 0.1 - stored_dt (CFL s) \<and>
          stop_sim_time (solver s) = Some 10.01 \<and>
          safety (CFL s) = 0.35 \<and> threshold (CFL s) = 0.1 \<and> max_dt (CFL s) = 0.05"
  then obtain k where k: "iteration (solver s) = int (Suc k)"
    and rest: "velocity_cells blowup_env (state (solver s)) = [(1, 14 * 2 ^ k)] \<and>
          map fname (state (solver s)) = [''u'', ''p'', ''T'', ''tau u'', ''tau T''] \<and>
          stored_dt (CFL s) = 0.05 / 2 ^ k \<and>
          sim_time (solver s) = 0.1 - stored_dt (CFL s) \<and>
          stop_sim_time (solver s) = Some 10.01 \<and>
          safety (CFL s) = 0.35 \<and> threshold (CFL s) = 0.1 \<and> max_dt (CFL s) = 0.05"
    by (elim exE conjE) (rule that; (intro conjI)?; assumption)
  from k have kk: "nat (iteration (solver s) - 1) = k" "1 \<le> iteration (solver s)" by simp_all
  show "blowup_inv s"
    unfolding blowup_inv_def Let_def kk using kk(2) rest by blast
qed

lemma blowup_bound:
  "courant_bound (35/100) [(1, 14 * 2 ^ k)] = Some ((5/100) / 2 ^ k / 2)"
  by (simp add: courant_bound_def field_simps)

lemma blowup_inv_step:
  assumes "blowup_inv s"
  shows "proceed (solver s) \<and> blowup_inv (loop_body blowup_env s)"
proof -
  from assms obtain k where k: "iteration (solver s) = int (Suc k)"
    and vc: "velocity_cells blowup_env (state (solver s)) = [(1, 14 * 2 ^ k)]"
    and nm: "map fname (state (solver s)) = [''u'', ''p'', ''T'', ''tau u'', ''tau T'']"
    and st: "stored_dt (CFL s) = 0.05 / 2 ^ k"
    and tm: "sim_time (solver s) = 0.1 - stored_dt (CFL s)"
    and stop: "stop_sim_time (solver s) = Some 10.01"
    and par: "safety (CFL s) = 0.35" "threshold (CFL s) = 0.1" "max_dt (CFL s) = 0.05"
    unfolding blowup_inv_iff by (elim exE conjE) (rule that; assumption)
  have pos: "0 < (0.05::real) / 2 ^ k" by simp
  have le: "(0.05::real) / 2 ^ k \<le> 0.05"
    by (simp add: divide_le_eq)
  have nd: "next_dt blowup_env s = 0.05 / 2 ^ k / 2"
  proof -
    define b :: real where "b = stored_dt (CFL s) / 2"
    have sp: "0 < stored_dt (CFL s)" "stored_dt (CFL s) \<le> 0.05"
      using pos le by (simp_all only: st)
    have cb: "courant_bound 0.35 (velocity_cells blowup_env (state (solver s))) = Some b"
      unfolding vc b_def st using blowup_bound[of k] by simp
    have "next_dt blowup_env s =
        min (if \<bar>b - stored_dt (CFL s)\<bar> < 0.1 * stored_dt (CFL s) then stored_dt (CFL s) else b) 0.05"
      unfolding next_dt_cases par cb option.case by simp
    moreover have "\<not> \<bar>b - stored_dt (CFL s)\<bar> < 0.1 * stored_dt (CFL s)"
      using sp(1) unfolding b_def by linarith
    moreover have "b \<le> 0.05" using sp unfolding b_def by linarith
    ultimately have "next_dt blowup_env s = b" by simp
    then show ?thesis by (simp add: b_def st)
  qed
  have pr: "proceed (solver s)"
  proof -
    have "0 < (5::real) / 2 ^ k" by simp
    then have "- (5 / 2 ^ k) < (991::real)" by linarith
    then have "sim_time (solver s) < 10.01"
      unfolding tm st by simp
    then show ?thesis by (simp add: proceed_def stop)
  qed
  have "blowup_inv (loop_body blowup_env s)"
    unfolding blowup_inv_iff
  proof (intro exI[of _ "Suc k"] conjI)
    show "iteration (solver (loop_body blowup_env s)) = int (Suc (Suc k))"
      by (simp add: loop_body_sel k)
    show "velocity_cells blowup_env (state (solver (loop_body blowup_env s))) = [(1, 14 * 2 ^ Suc k)]"
      using blowup_cells_after[OF nm] by (simp add: k del: power_Suc)
    show "map fname (state (solver (loop_body blowup_env s))) =
        [''u'', ''p'', ''T'', ''tau u'', ''tau T'']"
      by (simp add: loop_body_names nm)
    show "stored_dt (CFL (loop_body blowup_env s)) = 0.05 / 2 ^ Suc k"
      by (simp add: loop_body_sel nd)
    show "sim_time (solver (loop_body blowup_env s)) = 0.1 - stored_dt (CFL (loop_body blowup_env s))"
      by (simp add: loop_body_sel nd tm st)
    show "stop_sim_time (solver (loop_body blowup_env s)) = Some 10.01"
      by (simp add: loop_body_sel stop)
    show "safety (CFL (loop_body blowup_env s)) = 0.35"
      "threshold (CFL (loop_body blowup_env s)) = 0.1"
      "max_dt (CFL (loop_body blowup_env s)) = 0.05"
      by (simp_all add: loop_body_sel par)
  qed
  with pr show ?thesis by simp
qed

lemma blowup_first_pass: "blowup_inv (loop_body blowup_env (startup blowup_env))"
proof -
  let ?s = "startup blowup_env"
  note nr = blowup_sel(7)
  have nm: "map fname (state (solver ?s)) = [''u'', ''p'', ''T'', ''tau u'', ''tau T'']"
    by (rule startup_names)
  have it: "iteration (solver ?s) = 0" "sim_time (solver ?s) = 0"
    "stop_sim_time (solver ?s) = Some 10.01"
    using startup_fresh[OF nr] by simp_all
  have vc: "velocity_cells blowup_env (state (solver ?s)) = []"
    using nr
    by (simp add: velocity_cells_def startup_def initial_condition_def InitialValueSolver_def
        variables_def update_field_def Let_def blowup_sel ball_shape_def zeros3_def)
  have nd: "next_dt blowup_env ?s = 0.05"
    using run_next_dt[of blowup_env 0] by (simp add: vc courant_bound_def)
  show ?thesis
    unfolding blowup_inv_iff
  proof (intro exI[of _ 0] conjI)
    show "iteration (solver (loop_body blowup_env ?s)) = int (Suc 0)"
      by (simp add: loop_body_sel it)
    show "velocity_cells blowup_env (state (solver (loop_body blowup_env ?s))) = [(1, 14 * 2 ^ 0)]"
      using blowup_cells_after[OF nm] by (simp add: it)
    show "map fname (state (solver (loop_body blowup_env ?s))) =
        [''u'', ''p'', ''T'', ''tau u'', ''tau T'']"
      by (simp add: loop_body_names nm)
    show "stored_dt (CFL (loop_body blowup_env ?s)) = 0.05 / 2 ^ 0"
      by (simp add: loop_body_sel nd)
    show "sim_time (solver (loop_body blowup_env ?s)) = 0.1 - stored_dt (CFL (loop_body blowup_env ?s))"
      by (simp add: loop_body_sel nd it)
    show "stop_sim_time (solver (loop_body blowup_env ?s)) = Some 10.01"
      by (simp add: loop_body_sel it)
    show "safety (CFL (loop_body blowup_env ?s)) = 0.35"
      "threshold (CFL (loop_body blowup_env ?s)) = 0.1"
      "max_dt (CFL (loop_body blowup_env ?s)) = 0.05"
      by (simp_all add: loop_body_sel startup_cfl)
  qed
qed

lemma blowup_steps_positive: "0 < dt (passes (Suc n) blowup_env (startup blowup_env))"
proof -
  have inv: "blowup_inv (passes (Suc n) blowup_env (startup blowup_env))" for n
  proof (induction n)
    case 0
    then show ?case using blowup_first_pass by simp
  next
    case (Suc n)
    then show ?case
      using blowup_inv_step[of "passes (Suc n) blowup_env (startup blowup_env)"]
      by (simp only: passes_Suc_right[of "Suc n"])
  qed
  from inv[of n] show ?thesis
    unfolding blowup_inv_iff by (auto simp: passes_stored simp del: passes.simps)
qed

text \<open>
  Claim C7, as stated, fails. When the speed doubles with every step, every step size is
  positive (\<open>blowup_steps_positive\<close>), the step sizes 0.05, 0.025, 0.0125, ... sum to less
  than 0.1, the simulation time never reaches the stop time 10.01, and the loop does not
  return.
\<close>

theorem positive_steps_without_end:
  "main_loop blowup_env (startup blowup_env) = None"
proof -
  have "proceed (solver (startup blowup_env))"
    using startup_fresh[OF blowup_sel(7)] by (simp add: proceed_def)
  then have "main_loop blowup_env (startup blowup_env) =
      main_loop blowup_env (loop_body blowup_env (startup blowup_env))"
    by (subst main_loop.simps) simp
  also have "\<dots> = None"
    by (rule main_loop_diverges[where I = blowup_inv, OF blowup_inv_step blowup_first_pass])
  finally show ?thesis .
qed

subsection \<open>The buoyancy coefficient\<close>

lemma main_loop_result:
  assumes "main_loop e s = Some y"
  shows "\<exists>n. y = passes n e s"
proof (rule main_loop.raw_induct[where P = "\<lambda>e s y. \<exists>n. y = passes n e s", OF _ assms])
  fix ml :: "env \<Rightarrow> script \<Rightarrow> script option" and e0 s0 y0
  assume ih: "\<And>a b y. ml a b = Some y \<Longrightarrow> \<exists>n. y = passes n a b"
    and eq: "(if proceed (solver s0) then ml e0 (loop_body e0 s0) else Some s0) = Some y0"
  show "\<exists>n. y0 = passes n e0 s0"
  proof (cases "proceed (solver s0)")
    case True
    with eq have "ml e0 (loop_body e0 s0) = Some y0" by simp
    from ih[OF this] obtain n where "y0 = passes n e0 (loop_body e0 s0)" by blast
    then have "y0 = passes (Suc n) e0 s0" by simp
    then show ?thesis by blast
  next
    case False
    with eq have "y0 = passes 0 e0 s0" by simp
    then show ?thesis by blast
  qed
qed

lemma startup_r_vec: "r_vec (startup e) = r_vec_init e"
  by (simp add: startup_def Let_def split: prod.split)

lemma r_vec_init_data:
  "data (r_vec_init e) =
     (to_grid e (replicate 3 (zeros3 1 1 (length (rgrid e)))))[2 := [[rgrid e]]]"
  by (simp add: r_vec_init_def set_grid_component_def require_grid_space_def Let_def)

lemma times_zero_profile:
  "\<forall>x\<in>set (concat (concat (map (map (\<lambda>row. map2 (*) (concat (concat (zeros3 1 1 m))) row)) A))).
      x = (0::real)"
  by (auto simp: zeros3_def set_zip)

text \<open>
  Claim C9. No pass of the main loop touches \<open>r_vec\<close>: during the loop and when it
  returns, the field is as line 71 left it. Provided the transform to grid space maps the
  zero buffer of the new field to zero, its components 0 and 1 (phi and theta) are zero
  and component 2 holds the radii \<open>r\<close>; the grid values of \<open>r_vec*T\<close> are then zero in
  components 0 and 1 and \<open>r\<close> times \<open>T\<close> in component 2, for any grid values of \<open>T\<close>.
\<close>

theorem r_vec_purely_radial:
  "r_vec (passes n e (startup e)) = r_vec_init e \<and>
   (\<forall>s'. main_loop e (startup e) = Some s' \<longrightarrow> r_vec s' = r_vec_init e) \<and>
   (to_grid e (replicate 3 (zeros3 1 1 (length (rgrid e))))
      = replicate 3 (zeros3 1 1 (length (rgrid e))) \<longrightarrow>
    data (r_vec_init e) =
      [zeros3 1 1 (length (rgrid e)), zeros3 1 1 (length (rgrid e)), [[rgrid e]]] \<and>
    (\<forall>c<2. \<forall>x\<in>set (concat (concat (times_radial (data (r_vec_init e)) A ! c))). x = 0) \<and>
    times_radial (data (r_vec_init e)) A ! 2 = map (map (\<lambda>row. map2 (*) (rgrid e) row)) A)"
proof (intro conjI allI impI)
  show "r_vec (passes n e (startup e)) = r_vec_init e"
    by (simp add: passes_frame startup_r_vec)
next
  fix s' assume "main_loop e (startup e) = Some s'"
  from main_loop_result[OF this] obtain m where "s' = passes m e (startup e)" by blast
  then show "r_vec s' = r_vec_init e"
    by (simp add: passes_frame startup_r_vec)
next
  assume z: "to_grid e (replicate 3 (zeros3 1 1 (length (rgrid e))))
      = replicate 3 (zeros3 1 1 (length (rgrid e)))"
  let ?Z = "zeros3 1 1 (length (rgrid e))"
  show d: "data (r_vec_init e) = [?Z, ?Z, [[rgrid e]]]"
    by (simp only: r_vec_init_data z) (simp add: numeral_3_eq_3 numeral_2_eq_2)
  show "times_radial (data (r_vec_init e)) A ! 2 = map (map (\<lambda>row. map2 (*) (rgrid e) row)) A"
    by (simp add: d times_radial_def)
  fix c :: nat assume "c < 2"
  then have "c = 0 \<or> c = 1" by auto
  then have "times_radial (data (r_vec_init e)) A ! c =
      map (map (\<lambda>row. map2 (*) (concat (concat ?Z)) row)) A"
    by (auto simp: d times_radial_def)
  then show "\<forall>x\<in>set (concat (concat (times_radial (data (r_vec_init e)) A ! c))). x = 0"
    using times_zero_profile[of "length (rgrid e)" A] by simp
qed

text \<open>A first run on a one-point grid with radius 1/2, and the value 7 for \<open>T\<close>.\<close>

theorem r_vec_purely_radial_witness:
  "to_grid quiet_env (replicate 3 (zeros3 1 1 (length (rgrid quiet_env))))
      = replicate 3 (zeros3 1 1 (length (rgrid quiet_env))) \<and>
   data (r_vec (passes 3 quiet_env (startup quiet_env))) = [[[[0]]], [[[0]]], [[[1/2]]]] \<and>
   (0::nat) < 2 \<and>
   times_radial (data (r_vec (passes 3 quiet_env (startup quiet_env)))) [[[7]]] ! 0 = [[[0]]] \<and>
   times_radial (data (r_vec (passes 3 quiet_env (startup quiet_env)))) [[[7]]] ! 1 = [[[0]]] \<and>
   times_radial (data (r_vec (passes 3 quiet_env (startup quiet_env)))) [[[7]]] ! 2 = [[[7/2]]]"
proof -
  have z: "to_grid quiet_env (replicate 3 (zeros3 1 1 (length (rgrid quiet_env))))
      = replicate 3 (zeros3 1 1 (length (rgrid quiet_env)))"
    by (simp add: quiet_env_def)
  have r: "rgrid quiet_env = [1/2]" by (simp add: quiet_env_def)
  from r_vec_purely_radial[of 3 quiet_env "[[[7]]]"] z
  show ?thesis by (simp add: r zeros3_def times_radial_def)
qed

section \<open>Properties of problem assembly\<close>

lemma claimants_equations:
  "claimants equations n =
     (if n = 0 then [\<lparr>eq_str = ''p(r=1) = 0'', condition = Some (NthetaEq 0)\<rparr>]
      else [\<lparr>eq_str = ''rad(u(r=1)) = 0'', condition = Some (NthetaNe 0)\<rparr>])"
  by (simp add: claimants_def equations_def)

lemma check_ok:
  assumes "\<forall>n\<in>set ns. length (claimants eqs n) = 1"
  shows "check_mode_coverage eqs ns = Inr (map (\<lambda>n. (n, hd (claimants eqs n))) ns)"
  using assms
proof (induction ns)
  case Nil
  then show ?case by simp
next
  case (Cons n ns)
  from Cons.prems have "length (claimants eqs n) = 1" by simp
  then obtain q where q: "claimants eqs n = [q]"
    by (cases "claimants eqs n") auto
  with Cons show ?case by simp
qed

lemma check_error:
  assumes "\<exists>n\<in>set ns. length (claimants eqs n) \<noteq> 1"
  shows "check_mode_coverage eqs ns = Inl AssemblyError"
  using assms
proof (induction ns)
  case Nil
  then show ?case by simp
next
  case (Cons n ns)
  show ?case
  proof (cases "claimants eqs n")
    case Nil
    then show ?thesis by simp
  next
    case (Cons q qs)
    note c = this
    show ?thesis
    proof (cases qs)
      case Nil
      with c Cons.prems have "\<exists>n\<in>set ns. length (claimants eqs n) \<noteq> 1" by simp
      from Cons.IH[OF this] c Nil show ?thesis by simp
    next
      case (Cons q' qs')
      with c show ?thesis by simp
    qed
  qed
qed

text \<open>
  Claim C1. Every spectral index \<open>n\<close> of the convection problem is claimed by exactly one
  conditioned equation: the pressure gauge \<^verbatim>\<open>p(r=1) = 0\<close> for \<open>n = 0\<close> and the
  no-penetration condition \<^verbatim>\<open>rad(u(r=1)) = 0\<close> for every other \<open>n\<close>; the coverage check
  of assembly accepts the problem and routes each index to that equation. For any
  equations and indices, the check succeeds when every index has exactly one claimant,
  and it is an \<open>AssemblyError\<close> when some index has none or several; being a function of
  the equations and the indices, the outcome is determined by them.
\<close>

theorem mode_coverage:
  "length (claimants equations n) = 1 \<and>
   claimants equations 0 = [\<lparr>eq_str = ''p(r=1) = 0'', condition = Some (NthetaEq 0)\<rparr>] \<and>
   (n \<noteq> 0 \<longrightarrow>
      claimants equations n = [\<lparr>eq_str = ''rad(u(r=1)) = 0'', condition = Some (NthetaNe 0)\<rparr>]) \<and>
   check_mode_coverage equations ntheta_indices
     = Inr (map (\<lambda>n. (n, hd (claimants equations n))) ntheta_indices) \<and>
   ((\<forall>i\<in>set ns. length (claimants eqs i) = 1) \<longrightarrow>
      check_mode_coverage eqs ns = Inr (map (\<lambda>i. (i, hd (claimants eqs i))) ns)) \<and>
   ((\<exists>i\<in>set ns. length (claimants eqs i) \<noteq> 1) \<longrightarrow>
      check_mode_coverage eqs ns = Inl AssemblyError)"
proof -
  have one: "length (claimants equations i) = 1" for i
    by (simp add: claimants_equations)
  have "check_mode_coverage equations ntheta_indices
     = Inr (map (\<lambda>n. (n, hd (claimants equations n))) ntheta_indices)"
    by (rule check_ok) (simp add: one)
  with one[of n] check_ok[of ns eqs] check_error[of ns eqs] show ?thesis
    by (simp add: claimants_equations)
qed

text \<open>The script's equations, and the two malformed variants, on the indices 0, 1, 2.\<close>

theorem mode_coverage_witness:
  "length (claimants equations 0) = 1 \<and>
   length (claimants equations 1) = 1 \<and>
   length (claimants equations 2) = 1 \<and>
   check_mode_coverage equations [0, 1, 2] =
     Inr [(0, \<lparr>eq_str = ''p(r=1) = 0'', condition = Some (NthetaEq 0)\<rparr>),
          (1, \<lparr>eq_str = ''rad(u(r=1)) = 0'', condition = Some (NthetaNe 0)\<rparr>),
          (2, \<lparr>eq_str = ''rad(u(r=1)) = 0'', condition = Some (NthetaNe 0)\<rparr>)] \<and>
   (\<exists>i\<in>set [0, 1, 2]. length (claimants gap_equations i) \<noteq> 1) \<and>
   check_mode_coverage gap_equations [0, 1, 2] = Inl AssemblyError \<and>
   (\<exists>i\<in>set [0, 1, 2]. length (claimants overlap_equations i) \<noteq> 1) \<and>
   check_mode_coverage overlap_equations [0, 1, 2] = Inl AssemblyError"
proof -
  have a: "\<forall>i\<in>set [0, 1, 2]. length (claimants equations i) = 1"
    by (simp add: claimants_equations)
  have b: "\<exists>i\<in>set [0, 1, 2]. length (claimants gap_equations i) \<noteq> 1"
    by (simp add: claimants_def gap_equations_def)
  have c: "\<exists>i\<in>set [0, 1, 2]. length (claimants overlap_equations i) \<noteq> 1"
    by (simp add: claimants_def overlap_equations_def)
  from mode_coverage[of 1 "[0, 1, 2]" equations] a
  have 1: "check_mode_coverage equations [0, 1, 2] =
     Inr [(0, \<lparr>eq_str = ''p(r=1) = 0'', condition = Some (NthetaEq 0)\<rparr>),
          (1, \<lparr>eq_str = ''rad(u(r=1)) = 0'', condition = Some (NthetaNe 0)\<rparr>),
          (2, \<lparr>eq_str = ''rad(u(r=1)) = 0'', condition = Some (NthetaNe 0)\<rparr>)]"
    by (simp add: claimants_equations)
  from mode_coverage[of 1 "[0, 1, 2]" gap_equations] b
  have 2: "check_mode_coverage gap_equations [0, 1, 2] = Inl AssemblyError" by blast
  from mode_coverage[of 1 "[0, 1, 2]" overlap_equations] c
  have 3: "check_mode_coverage overlap_equations [0, 1, 2] = Inl AssemblyError" by blast
  from a have "length (claimants equations 0) = 1 \<and>
   length (claimants equations 1) = 1 \<and>
   length (claimants equations 2) = 1" by simp
  with b c 1 2 3 show ?thesis by blast
qed

end
